theory Spec2Isabelle
  imports Main "HOL-Library.Sublist"
begin

section \<open>The thread-dump parser of watson (src/parser/parseThreadDump.tsx)\<close>

text \<open>
  The parser builds a graph of mutable \<open>Thread\<close> and \<open>Lock\<close> objects that point at each
  other, and keeps its cursor in the module-level variable \<open>currentThread\<close>. The model is
  an explicit store: every \<open>Thread\<close> and every \<open>Lock\<close> the process ever allocated sits in
  a heap list, a reference is the object's index there (\<open>new\<close> appends), and reference
  equality (\<open>===\<close>, \<open>indexOf\<close>) is equality of indices. Strings are lists of code units
  below 256.
\<close>

subsection \<open>Data model\<close>

text \<open>
  Modelled from the spec: the classes \<open>Thread\<close>, \<open>Lock\<close>, \<open>ThreadDump\<close> and the enumeration
  \<open>ThreadStatus\<close> are imported by the parser from \<open>../types\<close>, which is not among the
  source files. Fields are those the parser reads and writes; a fresh \<open>Thread\<close> has empty
  stack and lock lists, no wait-target and no status assigned yet, a fresh \<open>Lock\<close> has
  no owner and nobody waiting (spec, sections 3 and 4.3). The date of a dump comes from
  the file name and is not touched by the line parser; it is left out.

  The field \<open>status\<close> holds what \<open>stringToThreadStatus\<close> returns. Its static type is
  \<open>ThreadStatus\<close>, but the lookup \<open>ThreadStatus[key]\<close> can return a value that is not a
  member of the enumeration: \<open>status_value\<close> has these values too. The field \<open>id\<close> holds
  what \<open>parseInt\<close> returns, a double: \<open>number\<close> has the integers that a double holds
  exactly, not-a-number, negative zero, and one value that stands for every double of
  magnitude above \<open>2 ^ 53\<close>.
\<close>

datatype ThreadStatus = RUNNABLE | BLOCKED | WAITING | TIMED_WAITING | NEW | TERMINATED | UNKNOWN

datatype status_value =
    Member ThreadStatus
  | Inherited string    \<comment> \<open>the value of the property of this name of \<open>Object.prototype\<close>\<close>
  | NumeralKey string   \<comment> \<open>the status for a token that is the decimal text of a number\<close>

datatype number =
    NaN
  | Num int             \<comment> \<open>an integer of magnitude at most \<open>2 ^ 53\<close>\<close>
  | NegativeZero
  | Unsafe              \<comment> \<open>any double of magnitude above \<open>2 ^ 53\<close>, the infinities included\<close>

record Thread =
  name :: string
  thread_id :: number                     \<comment> \<open>\<open>id\<close>\<close>
  status :: "status_value option"         \<comment> \<open>\<open>None\<close>: not assigned by the parser\<close>
  stackTrace :: "string list"
  locksHeld :: "nat list"
  classicalLocksHeld :: "nat list"
  lockWaitingFor :: "nat option"

record Lock =
  lock_id :: string                       \<comment> \<open>\<open>id\<close>\<close>
  className :: string
  owner :: "nat option"
  waiting :: "nat list"

definition new_Thread :: Thread where
  "new_Thread = \<lparr>name = [], thread_id = NaN, status = None, stackTrace = [],
     locksHeld = [], classicalLocksHeld = [], lockWaitingFor = None\<rparr>"

definition new_Lock :: Lock where
  "new_Lock = \<lparr>lock_id = [], className = [], owner = None, waiting = []\<rparr>"

text \<open>
  The state a call works on: the two heaps and the cursor \<open>currentThread\<close> belong to the
  process and survive a call of \<open>parseThreadDump\<close>; \<open>threads\<close> and \<open>locks\<close> are the two
  arrays of the \<open>ThreadDump\<close> under construction.
\<close>

record state =
  heapThreads :: "Thread list"
  heapLocks :: "Lock list"
  currentThread :: "nat option"
  threads :: "nat list"
  locks :: "nat list"

definition fresh_process :: state where
  "fresh_process = \<lparr>heapThreads = [], heapLocks = [], currentThread = None,
     threads = [], locks = []\<rparr>"

datatype error = TypeError

definition upd_thread :: "nat \<Rightarrow> (Thread \<Rightarrow> Thread) \<Rightarrow> state \<Rightarrow> state" where
  "upd_thread t f s = s\<lparr>heapThreads := (heapThreads s)[t := f (heapThreads s ! t)]\<rparr>"

definition upd_lock :: "nat \<Rightarrow> (Lock \<Rightarrow> Lock) \<Rightarrow> state \<Rightarrow> state" where
  "upd_lock l f s = s\<lparr>heapLocks := (heapLocks s)[l := f (heapLocks s ! l)]\<rparr>"

subsection \<open>Characters, \<open>trim\<close>, \<open>parseInt\<close>, \<open>split\<close>\<close>

definition isSpace :: "char \<Rightarrow> bool" where
  \<comment> \<open>\<open>\s\<close> and the characters \<open>trim\<close> strips: TAB, LF, VT, FF, CR, space, NBSP\<close>
  "isSpace c \<longleftrightarrow> c \<in> set [CHR 0x09, CHR 0x0A, CHR 0x0B, CHR 0x0C, CHR 0x0D, CHR 0x20, CHR 0xA0]"

definition isLineTerminator :: "char \<Rightarrow> bool" where
  \<comment> \<open>what \<open>.\<close> does not match\<close>
  "isLineTerminator c \<longleftrightarrow> c = CHR 0x0A \<or> c = CHR 0x0D"

definition isDigit :: "char \<Rightarrow> bool" where
  "isDigit c \<longleftrightarrow> c \<in> set ''0123456789''"

definition isLockIdChar :: "char \<Rightarrow> bool" where
  \<comment> \<open>\<open>[x0-9a-f]\<close>\<close>
  "isLockIdChar c \<longleftrightarrow> c \<in> set ''x0123456789abcdef''"

definition isNidChar :: "char \<Rightarrow> bool" where
  \<comment> \<open>\<open>[0-9a-fx,]\<close>\<close>
  "isNidChar c \<longleftrightarrow> c \<in> set ''0123456789abcdefx,''"

definition trim :: "string \<Rightarrow> string" where
  "trim s = rev (dropWhile isSpace (rev (dropWhile isSpace s)))"

definition digitValue :: "char \<Rightarrow> nat" where
  \<comment> \<open>the value of a decimal digit: its position in \<open>0123456789\<close>\<close>
  "digitValue c = length (takeWhile (\<lambda>d. d \<noteq> c) ''0123456789'')"

definition parseInt10 :: "string \<Rightarrow> number" where
  \<comment> \<open>\<open>parseInt(str, 10)\<close>: leading white space, a sign, then the longest run of decimal
      digits; no digit gives \<open>NaN\<close>, the value zero keeps the sign. With radix 10 a prefix
      \<open>0x\<close> is not special. The result is the double nearest to the value of the digits,
      which is that value up to \<open>2 ^ 53\<close>. Above, the double is a rounded value, for more
      than 20 digits one that the implementation may choose, or an infinity: \<open>Unsafe\<close>
      stands for each of them.\<close>
  "parseInt10 str =
     (let s = dropWhile isSpace str;
          signed = (s \<noteq> [] \<and> (hd s = CHR ''-'' \<or> hd s = CHR ''+''));
          negative = (s \<noteq> [] \<and> hd s = CHR ''-'');
          z = takeWhile isDigit (if signed then tl s else s);
          mathInt = foldl (\<lambda>n c. 10 * n + digitValue c) 0 z
      in if z = [] then NaN
         else if mathInt = 0 then (if negative then NegativeZero else Num 0)
         else if 9007199254740992 < mathInt then Unsafe
         else Num (if negative then - int mathInt else int mathInt))"

fun split_lines :: "string \<Rightarrow> string list" where
  \<comment> \<open>\<open>text.split('\n')\<close>\<close>
  "split_lines [] = [[]]"
| "split_lines (c # cs) =
     (if c = CHR 0x0A then [] # split_lines cs
      else (case split_lines cs of l # ls \<Rightarrow> (c # l) # ls | [] \<Rightarrow> [[c]]))"

subsection \<open>The regular expressions\<close>

text \<open>
  Each \<open>RegExp\<close> constant of the source is the function from a line to the list of its
  capture groups (\<open>None\<close>: no match). The functions follow the backtracking matcher:
  a greedy \<open>(.*)\<close> takes the longest stretch after which the rest of the pattern matches,
  the lazy \<open>(.*?)\<close> the shortest, and \<open>.\<close> never matches a line terminator.
\<close>

fun greedy_dot :: "string \<Rightarrow> string \<Rightarrow> string option" where
  \<comment> \<open>\<open>(.*)\<close> followed by the literal \<open>lit\<close>\<close>
  "greedy_dot lit [] = (if lit = [] then Some [] else None)"
| "greedy_dot lit (c # cs) =
     (case (if isLineTerminator c then None else greedy_dot lit cs) of
        Some g \<Rightarrow> Some (c # g)
      | None \<Rightarrow> if prefix lit (c # cs) then Some [] else None)"

fun lazy_dot :: "(string \<Rightarrow> 'a option) \<Rightarrow> string \<Rightarrow> (string \<times> 'a) option" where
  \<comment> \<open>\<open>(.*?)\<close> followed by the rest of the pattern \<open>k\<close>\<close>
  "lazy_dot k [] = (case k [] of Some v \<Rightarrow> Some ([], v) | None \<Rightarrow> None)"
| "lazy_dot k (c # cs) =
     (case k (c # cs) of
        Some v \<Rightarrow> Some ([], v)
      | None \<Rightarrow>
          if isLineTerminator c then None
          else (case lazy_dot k cs of Some (g, v) \<Rightarrow> Some (c # g, v) | None \<Rightarrow> None))"

fun dot_literal :: "string \<Rightarrow> string \<Rightarrow> string option" where
  \<comment> \<open>a literal of the pattern in which \<open>.\<close> is unescaped; returns what follows the match\<close>
  "dot_literal [] s = Some s"
| "dot_literal (p # ps) [] = None"
| "dot_literal (p # ps) (c # cs) =
     (if (if p = CHR ''.'' then \<not> isLineTerminator c else c = p) then dot_literal ps cs
      else None)"

definition lock_reference :: "string \<Rightarrow> string list option" where
  \<comment> \<open>\<open><([x0-9a-f]+)> \(a (.*)\)\<close>, the common tail of the two lock patterns\<close>
  "lock_reference r =
     (if prefix ''<'' r \<and> takeWhile isLockIdChar (drop 1 r) \<noteq> []
         \<and> prefix ''> (a '' (dropWhile isLockIdChar (drop 1 r))
      then (case greedy_dot '')'' (drop 5 (dropWhile isLockIdChar (drop 1 r))) of
              Some cn \<Rightarrow> Some [takeWhile isLockIdChar (drop 1 r), cn]
            | None \<Rightarrow> None)
      else None)"

definition spaces_lock_reference :: "string \<Rightarrow> string list option" where
  \<comment> \<open>\<open> +<([x0-9a-f]+)> \(a (.*)\)\<close>\<close>
  "spaces_lock_reference r =
     (if takeWhile (\<lambda>c. c = CHR '' '') r \<noteq> []
      then lock_reference (dropWhile (\<lambda>c. c = CHR '' '') r) else None)"

definition NAME_PATTERN :: "string \<Rightarrow> string list option" where
  \<comment> \<open>\<open>/^\"(.*)\" /\<close>\<close>
  "NAME_PATTERN line =
     (if prefix [CHR 0x22] line
      then (case greedy_dot [CHR 0x22, CHR '' ''] (drop 1 line) of
              Some g \<Rightarrow> Some [g] | None \<Rightarrow> None)
      else None)"

fun NID_PATTERN :: "string \<Rightarrow> string list option" where
  \<comment> \<open>\<open>/ nid=([0-9a-fx,]+)/\<close>, not anchored: the leftmost match\<close>
  "NID_PATTERN [] = None"
| "NID_PATTERN (c # cs) =
     (if prefix '' nid='' (c # cs) \<and> takeWhile isNidChar (drop 5 (c # cs)) \<noteq> []
      then Some [takeWhile isNidChar (drop 5 (c # cs))]
      else NID_PATTERN cs)"

definition FRAME_PATTERN :: "string \<Rightarrow> string list option" where
  \<comment> \<open>\<open>/^\s+at (.*)/\<close>\<close>
  "FRAME_PATTERN line =
     (if takeWhile isSpace line \<noteq> [] \<and> prefix ''at '' (dropWhile isSpace line)
      then Some [takeWhile (\<lambda>c. \<not> isLineTerminator c) (drop 3 (dropWhile isSpace line))]
      else None)"

definition THREAD_STATE_PATTERN :: "string \<Rightarrow> string list option" where
  \<comment> \<open>\<open>/^\s*java.lang.Thread.State: (.*)/\<close>\<close>
  "THREAD_STATE_PATTERN line =
     (case dot_literal ''java.lang.Thread.State: '' (dropWhile isSpace line) of
        Some r \<Rightarrow> Some [takeWhile (\<lambda>c. \<not> isLineTerminator c) r]
      | None \<Rightarrow> None)"

definition SYNCHRONIZATION_STATUS_PATTERN :: "string \<Rightarrow> string list option" where
  \<comment> \<open>\<open>/^\s+- (.*?) +<([x0-9a-f]+)> \(a (.*)\)/\<close>\<close>
  "SYNCHRONIZATION_STATUS_PATTERN line =
     (if takeWhile isSpace line \<noteq> [] \<and> prefix ''- '' (dropWhile isSpace line)
      then (case lazy_dot spaces_lock_reference (drop 2 (dropWhile isSpace line)) of
              Some (g, gs) \<Rightarrow> Some (g # gs) | None \<Rightarrow> None)
      else None)"

definition HELD_LOCK_PATTERN :: "string \<Rightarrow> string list option" where
  \<comment> \<open>\<open>/^\s+- <([x0-9a-f]+)> \(a (.*)\)/\<close>\<close>
  "HELD_LOCK_PATTERN line =
     (if takeWhile isSpace line \<noteq> [] \<and> prefix ''- '' (dropWhile isSpace line)
      then lock_reference (drop 2 (dropWhile isSpace line))
      else None)"

text \<open>
  Modelled from the spec: \<open>matchOne\<close> and \<open>matchMultipleGroups\<close> are imported from
  \<open>./RegExpUtils\<close>, which is not among the source files. The parser tests their results
  for truthiness and length (\<open>if (frame)\<close>, \<open>synchronizationStatus.length === 3\<close>) and
  calls \<open>trim\<close> on one: \<open>matchOne\<close> gives the first capture group, the empty string when
  the line does not match; \<open>matchMultipleGroups\<close> gives all capture groups, none when the
  line does not match.
\<close>

definition matchOne :: "string \<Rightarrow> (string \<Rightarrow> string list option) \<Rightarrow> string" where
  "matchOne line pattern = (case pattern line of Some (g # gs) \<Rightarrow> g | _ \<Rightarrow> [])"

definition matchMultipleGroups :: "string \<Rightarrow> (string \<Rightarrow> string list option) \<Rightarrow> string list" where
  "matchMultipleGroups line pattern = (case pattern line of Some gs \<Rightarrow> gs | None \<Rightarrow> [])"

subsection \<open>The parser\<close>

text \<open>
  Modelled from the spec: the declaration of \<open>ThreadStatus\<close> is not among the source files.
  The object \<open>ThreadStatus\<close> has the seven member names of section 3 as its own keys, and
  like every object it inherits the properties of \<open>Object.prototype\<close> (those of ECMAScript
  2015 with its Annex B): the lookup \<open>ThreadStatus[key]\<close> of the source finds both, and is
  \<open>undefined\<close> (\<open>None\<close>) for every other key that is not the decimal text of a
  number. If the members are numbers, the object has one more own key for each member,
  the text of its number, whose value is the name of the member; if they are strings it
  has no such key. The sources do not say which. For a key that is the decimal text of a
  natural number the lookup is \<open>NumeralKey key\<close>, which stands for the name of the member
  with that number when there is one, and otherwise for \<open>UNKNOWN\<close>, which the prefix
  rules give for such a token. Neither is one of the three statuses of \<open>validStatuses\<close>.
\<close>

definition ThreadStatus_member :: "string \<Rightarrow> ThreadStatus option" where
  \<comment> \<open>the own keys of \<open>ThreadStatus\<close> that are member names, and their members\<close>
  "ThreadStatus_member key =
     (if key = ''RUNNABLE'' then Some RUNNABLE
      else if key = ''BLOCKED'' then Some BLOCKED
      else if key = ''WAITING'' then Some WAITING
      else if key = ''TIMED_WAITING'' then Some TIMED_WAITING
      else if key = ''NEW'' then Some NEW
      else if key = ''TERMINATED'' then Some TERMINATED
      else if key = ''UNKNOWN'' then Some UNKNOWN
      else None)"

definition Object_prototype_keys :: "string list" where
  "Object_prototype_keys =
     [''constructor'', ''hasOwnProperty'', ''isPrototypeOf'', ''propertyIsEnumerable'',
      ''toLocaleString'', ''toString'', ''valueOf'', ''__proto__'', ''__defineGetter__'',
      ''__defineSetter__'', ''__lookupGetter__'', ''__lookupSetter__'']"

definition isNumeral :: "string \<Rightarrow> bool" where
  \<comment> \<open>the decimal text of a natural number, as \<open>String\<close> writes it\<close>
  "isNumeral key \<longleftrightarrow>
     key \<noteq> [] \<and> list_all isDigit key \<and> (key = ''0'' \<or> hd key \<in> set ''123456789'')"

definition ThreadStatus_get :: "string \<Rightarrow> status_value option" where
  \<comment> \<open>\<open>ThreadStatus[key]\<close>\<close>
  "ThreadStatus_get key =
     (case ThreadStatus_member key of
        Some m \<Rightarrow> Some (Member m)
      | None \<Rightarrow>
          if key \<in> set Object_prototype_keys then Some (Inherited key)
          else if isNumeral key then Some (NumeralKey key)
          else None)"

definition stringToThreadStatus :: "string \<Rightarrow> status_value" where
  "stringToThreadStatus st =
     (case ThreadStatus_get st of
        Some threadStatus \<Rightarrow> threadStatus
      | None \<Rightarrow>
          if prefix ''BLOCKED'' st then Member BLOCKED
          else if prefix ''WAITING'' st then Member WAITING
          else if prefix ''TIME_WAITING'' st then Member TIMED_WAITING
          else Member UNKNOWN)"

definition getOrCreateLock :: "string \<Rightarrow> string \<Rightarrow> state \<Rightarrow> nat \<times> state" where
  "getOrCreateLock i cn s =
     (case find (\<lambda>existingLock. lock_id (heapLocks s ! existingLock) = i) (locks s) of
        Some existingLock \<Rightarrow> (existingLock, s)
      | None \<Rightarrow>
          (length (heapLocks s),
           s\<lparr>heapLocks := heapLocks s @ [new_Lock\<lparr>lock_id := i, className := cn\<rparr>],
             locks := locks s @ [length (heapLocks s)]\<rparr>))"

definition parseThreadHeader :: "string \<Rightarrow> state \<Rightarrow> state" where
  "parseThreadHeader header s =
     s\<lparr>heapThreads := heapThreads s @
          [new_Thread\<lparr>name := trim (matchOne header NAME_PATTERN),
                      thread_id := parseInt10 (matchOne header NID_PATTERN)\<rparr>],
       currentThread := Some (length (heapThreads s)),
       threads := threads s @ [length (heapThreads s)]\<rparr>"

definition wait_record :: "nat \<Rightarrow> string \<Rightarrow> string \<Rightarrow> state \<Rightarrow> state" where
  \<comment> \<open>the cases \<open>waiting on\<close>, \<open>parking to wait for\<close>, \<open>waiting to lock\<close>\<close>
  "wait_record t lockId cn s =
     (case getOrCreateLock lockId cn s of (lock, s1) \<Rightarrow>
        upd_thread t (\<lambda>th. th\<lparr>lockWaitingFor := Some lock\<rparr>)
          (upd_lock lock (\<lambda>l. l\<lparr>waiting := waiting l @ [t]\<rparr>) s1))"

definition locked_record :: "nat \<Rightarrow> string \<Rightarrow> string \<Rightarrow> state \<Rightarrow> state" where
  \<comment> \<open>the case \<open>locked\<close>\<close>
  "locked_record t lockId cn s =
     (if (case lockWaitingFor (heapThreads s ! t) of
            Some w \<Rightarrow> lock_id (heapLocks s ! w) = lockId | None \<Rightarrow> False)
      then s
      else (case getOrCreateLock lockId cn s of (lock, s1) \<Rightarrow>
        upd_thread t (\<lambda>th. th\<lparr>classicalLocksHeld := classicalLocksHeld th @ [lock]\<rparr>)
          (upd_thread t (\<lambda>th. th\<lparr>locksHeld := locksHeld th @ [lock]\<rparr>)
            (upd_lock lock (\<lambda>l. l\<lparr>owner := Some t\<rparr>) s1))))"

definition held_record :: "nat \<Rightarrow> string \<Rightarrow> string \<Rightarrow> state \<Rightarrow> state" where
  \<comment> \<open>a line of \<open>HELD_LOCK_PATTERN\<close>\<close>
  "held_record t lockId cn s =
     (case getOrCreateLock lockId cn s of (lock, s1) \<Rightarrow>
        upd_thread t (\<lambda>th. th\<lparr>locksHeld := locksHeld th @ [lock]\<rparr>)
          (upd_lock lock (\<lambda>l. l\<lparr>owner := Some t\<rparr>) s1))"

definition sync_record :: "nat \<Rightarrow> string \<Rightarrow> string \<Rightarrow> string \<Rightarrow> state \<Rightarrow> state" where
  \<comment> \<open>the \<open>switch (state)\<close>; \<open>eliminated\<close> and the default case change nothing\<close>
  "sync_record t st lockId cn s =
     (if st = ''waiting on'' \<or> st = ''parking to wait for'' \<or> st = ''waiting to lock''
      then wait_record t lockId cn s
      else if st = ''locked'' then locked_record t lockId cn s
      else s)"

definition parseStackLine :: "string \<Rightarrow> state \<Rightarrow> state" where
  \<comment> \<open>the lines that are only ignored or warned about (\<open>console.warn\<close>) change nothing\<close>
  "parseStackLine line s =
     (case currentThread s of
        None \<Rightarrow> s
      | Some t \<Rightarrow>
          if matchOne line FRAME_PATTERN \<noteq> []
          then upd_thread t (\<lambda>th. th\<lparr>stackTrace := stackTrace th @ [matchOne line FRAME_PATTERN]\<rparr>) s
          else if matchOne line THREAD_STATE_PATTERN \<noteq> []
          then upd_thread t
                 (\<lambda>th. th\<lparr>status := Some (stringToThreadStatus (matchOne line THREAD_STATE_PATTERN))\<rparr>) s
          else if length (matchMultipleGroups line SYNCHRONIZATION_STATUS_PATTERN) = 3
          then sync_record t
                 (matchMultipleGroups line SYNCHRONIZATION_STATUS_PATTERN ! 0)
                 (matchMultipleGroups line SYNCHRONIZATION_STATUS_PATTERN ! 1)
                 (matchMultipleGroups line SYNCHRONIZATION_STATUS_PATTERN ! 2) s
          else if length (matchMultipleGroups line HELD_LOCK_PATTERN) = 2
          then held_record t
                 (matchMultipleGroups line HELD_LOCK_PATTERN ! 0)
                 (matchMultipleGroups line HELD_LOCK_PATTERN ! 1) s
          else s)"

definition parseLine :: "string \<Rightarrow> state \<Rightarrow> state" where
  "parseLine line s =
     (if prefix [CHR 0x22] line then parseThreadHeader line s
      else if line \<noteq> [] then parseStackLine line s
      else s)"

definition indexOf :: "'a list \<Rightarrow> 'a \<Rightarrow> int" where
  "indexOf xs x = (if x \<in> set xs then int (length (takeWhile (\<lambda>y. y \<noteq> x) xs)) else - 1)"

definition splice1 :: "int \<Rightarrow> 'a list \<Rightarrow> 'a list" where
  \<comment> \<open>\<open>xs.splice(start, 1)\<close>: a negative \<open>start\<close> counts from the end\<close>
  "splice1 start xs =
     (let len = int (length xs);
          actualStart = (if start < 0 then max (len + start) 0 else min start len)
      in take (nat actualStart) xs @ drop (nat actualStart + 1) xs)"

definition resolve_thread :: "nat \<Rightarrow> state \<Rightarrow> error + state" where
  \<comment> \<open>the body of the \<open>forEach\<close>; \<open>classicalLocksHeld[0]\<close> of an empty array is
      \<open>undefined\<close>, and \<open>lock.owner = null\<close> then throws\<close>
  "resolve_thread t s =
     (case classicalLocksHeld (heapThreads s ! t) of
        [] \<Rightarrow> Inl TypeError
      | lock # _ \<Rightarrow>
          Inr (upd_thread t
                 (\<lambda>th. th\<lparr>classicalLocksHeld :=
                    splice1 (indexOf (classicalLocksHeld th) lock) (classicalLocksHeld th)\<rparr>)
              (upd_thread t
                 (\<lambda>th. th\<lparr>locksHeld := splice1 (indexOf (locksHeld th) lock) (locksHeld th)\<rparr>)
              (upd_thread t (\<lambda>th. th\<lparr>lockWaitingFor := Some lock\<rparr>)
              (upd_lock lock (\<lambda>l. l\<lparr>waiting := waiting l @ [t]\<rparr>)
              (upd_lock lock (\<lambda>l. l\<lparr>owner := None\<rparr>) s))))))"

fun forEach_resolve :: "nat list \<Rightarrow> state \<Rightarrow> error + state" where
  "forEach_resolve [] s = Inr s"
| "forEach_resolve (t # ts) s =
     (case resolve_thread t s of Inl e \<Rightarrow> Inl e | Inr s' \<Rightarrow> forEach_resolve ts s')"

definition validStatuses :: "ThreadStatus list" where
  "validStatuses = [BLOCKED, TIMED_WAITING, WAITING]"

definition identifyAnonymousSynchronizers :: "state \<Rightarrow> error + state" where
  "identifyAnonymousSynchronizers s =
     forEach_resolve
       (filter (\<lambda>t. case status (heapThreads s ! t) of
                      Some (Member st) \<Rightarrow> st \<in> set validStatuses | _ \<Rightarrow> False)
          (filter (\<lambda>t. lockWaitingFor (heapThreads s ! t) = None) (threads s)))
       s"

definition parseThreadDump :: "string \<Rightarrow> state \<Rightarrow> error + state" where
  \<comment> \<open>the argument state is the process before the call (its \<open>threads\<close> and \<open>locks\<close> are
      those of an earlier dump and are replaced by the arrays of the new \<open>ThreadDump\<close>);
      \<open>Inr\<close> is the state in which the callback receives the dump\<close>
  "parseThreadDump text p =
     identifyAnonymousSynchronizers
       (fold parseLine (split_lines text) (p\<lparr>threads := [], locks := []\<rparr>))"

subsection \<open>Well-formed heaps and reachable states\<close>

text \<open>
  The predicates the proofs work with. \<open>heap_ok\<close>: every reference the parser follows points into
  the heaps. \<open>wait_agreement\<close>: a thread's wait-target has the thread in its waiting list,
  and a thread in a waiting list has some wait-target. \<open>reachable\<close>: the states of a
  process, from its start, through any number of dumps, after every line and after
  every step of the resolver's loop.
\<close>

definition locks_ok :: "state \<Rightarrow> bool" where
  "locks_ok s \<longleftrightarrow> (\<forall>r \<in> set (locks s). r < length (heapLocks s))"

definition thread_ok :: "nat \<Rightarrow> Thread \<Rightarrow> bool" where
  "thread_ok n th \<longleftrightarrow>
     (\<forall>l \<in> set (classicalLocksHeld th). l < n) \<and> (\<forall>l. lockWaitingFor th = Some l \<longrightarrow> l < n)"

definition lock_ok :: "nat \<Rightarrow> Lock \<Rightarrow> bool" where
  "lock_ok m lk \<longleftrightarrow> (\<forall>t \<in> set (waiting lk). t < m)"

definition heap_ok :: "state \<Rightarrow> bool" where
  "heap_ok s \<longleftrightarrow>
     (\<forall>t. currentThread s = Some t \<longrightarrow> t < length (heapThreads s)) \<and>
     (\<forall>t \<in> set (threads s). t < length (heapThreads s)) \<and>
     (\<forall>l \<in> set (locks s). l < length (heapLocks s)) \<and>
     (\<forall>t < length (heapThreads s). thread_ok (length (heapLocks s)) (heapThreads s ! t)) \<and>
     (\<forall>l < length (heapLocks s). lock_ok (length (heapThreads s)) (heapLocks s ! l))"

definition wait_agreement :: "state \<Rightarrow> bool" where
  "wait_agreement s \<longleftrightarrow>
     (\<forall>t < length (heapThreads s). \<forall>l. lockWaitingFor (heapThreads s ! t) = Some l \<longrightarrow>
        t \<in> set (waiting (heapLocks s ! l))) \<and>
     (\<forall>l < length (heapLocks s). \<forall>t \<in> set (waiting (heapLocks s ! l)).
        lockWaitingFor (heapThreads s ! t) \<noteq> None)"

inductive reachable :: "state \<Rightarrow> bool" where
  fresh: "reachable fresh_process"
| new_dump: "reachable s \<Longrightarrow> reachable (s\<lparr>threads := [], locks := []\<rparr>)"
| line: "reachable s \<Longrightarrow> reachable (parseLine ln s)"
| resolve: "reachable s \<Longrightarrow> t \<in> set (threads s) \<Longrightarrow> resolve_thread t s = Inr s' \<Longrightarrow> reachable s'"

subsection \<open>The kinds of line\<close>

text \<open>
  \<open>parseLine\<close> and \<open>parseStackLine\<close> try their patterns in a fixed order and return at the
  first that matches. \<open>classify\<close> names the branch a line takes, in that order, with the
  groups the branch uses; \<open>apply_record\<close> is what the branch does. \<open>parseLine_classify\<close>
  below shows that the two together are \<open>parseLine\<close>.
\<close>

datatype record_kind =
    ThreadHeader
  | StackFrame string
  | ThreadState string
  | WaitRecord string string
  | LockedRecord string string
  | OtherSync
  | HeldLock string string
  | Ignored

definition classify :: "string \<Rightarrow> record_kind" where
  "classify line =
     (if prefix [CHR 0x22] line then ThreadHeader
      else if line = [] then Ignored
      else if matchOne line FRAME_PATTERN \<noteq> [] then StackFrame (matchOne line FRAME_PATTERN)
      else if matchOne line THREAD_STATE_PATTERN \<noteq> []
      then ThreadState (matchOne line THREAD_STATE_PATTERN)
      else if length (matchMultipleGroups line SYNCHRONIZATION_STATUS_PATTERN) = 3
      then (if matchMultipleGroups line SYNCHRONIZATION_STATUS_PATTERN ! 0 = ''waiting on'' \<or>
               matchMultipleGroups line SYNCHRONIZATION_STATUS_PATTERN ! 0 = ''parking to wait for'' \<or>
               matchMultipleGroups line SYNCHRONIZATION_STATUS_PATTERN ! 0 = ''waiting to lock''
            then WaitRecord (matchMultipleGroups line SYNCHRONIZATION_STATUS_PATTERN ! 1)
                   (matchMultipleGroups line SYNCHRONIZATION_STATUS_PATTERN ! 2)
            else if matchMultipleGroups line SYNCHRONIZATION_STATUS_PATTERN ! 0 = ''locked''
            then LockedRecord (matchMultipleGroups line SYNCHRONIZATION_STATUS_PATTERN ! 1)
                   (matchMultipleGroups line SYNCHRONIZATION_STATUS_PATTERN ! 2)
            else OtherSync)
      else if length (matchMultipleGroups line HELD_LOCK_PATTERN) = 2
      then HeldLock (matchMultipleGroups line HELD_LOCK_PATTERN ! 0)
             (matchMultipleGroups line HELD_LOCK_PATTERN ! 1)
      else Ignored)"

definition apply_record :: "string \<Rightarrow> record_kind \<Rightarrow> state \<Rightarrow> state" where
  "apply_record line k s =
     (case k of
        ThreadHeader \<Rightarrow> parseThreadHeader line s
      | StackFrame f \<Rightarrow>
          (case currentThread s of None \<Rightarrow> s
           | Some t \<Rightarrow> upd_thread t (\<lambda>th. th\<lparr>stackTrace := stackTrace th @ [f]\<rparr>) s)
      | ThreadState x \<Rightarrow>
          (case currentThread s of None \<Rightarrow> s
           | Some t \<Rightarrow> upd_thread t (\<lambda>th. th\<lparr>status := Some (stringToThreadStatus x)\<rparr>) s)
      | WaitRecord i cn \<Rightarrow>
          (case currentThread s of None \<Rightarrow> s | Some t \<Rightarrow> wait_record t i cn s)
      | LockedRecord i cn \<Rightarrow>
          (case currentThread s of None \<Rightarrow> s | Some t \<Rightarrow> locked_record t i cn s)
      | HeldLock i cn \<Rightarrow>
          (case currentThread s of None \<Rightarrow> s | Some t \<Rightarrow> held_record t i cn s)
      | OtherSync \<Rightarrow> s
      | Ignored \<Rightarrow> s)"

subsection \<open>The classification rules in the words of the specification\<close>

text \<open>
  Section 4.4 of the specification: an exact match against the member names first, then
  the prefix rules in their order, then \<open>UNKNOWN\<close>. \<open>stringToThreadStatus\<close> above is the
  source; the two are compared below.
\<close>

definition member_names :: "(string \<times> ThreadStatus) list" where
  "member_names =
     [(''RUNNABLE'', RUNNABLE), (''BLOCKED'', BLOCKED), (''WAITING'', WAITING),
      (''TIMED_WAITING'', TIMED_WAITING), (''NEW'', NEW), (''TERMINATED'', TERMINATED),
      (''UNKNOWN'', UNKNOWN)]"

definition prefix_rules :: "(string \<times> ThreadStatus) list" where
  "prefix_rules =
     [(''BLOCKED'', BLOCKED), (''WAITING'', WAITING), (''TIME_WAITING'', TIMED_WAITING)]"

definition classify_by_rules :: "string \<Rightarrow> ThreadStatus" where
  "classify_by_rules token =
     (case map_of member_names token of
        Some st \<Rightarrow> st
      | None \<Rightarrow>
          (case find (\<lambda>rule. prefix (fst rule) token) prefix_rules of
             Some rule \<Rightarrow> snd rule
           | None \<Rightarrow> UNKNOWN))"

subsection \<open>Predicates used in the statements\<close>

text \<open>
  \<open>locks_extend s s'\<close>: the lock list of the dump has only grown at its end from \<open>s\<close> to
  \<open>s'\<close>, and the locks of \<open>s\<close> have kept their id and class name. \<open>exclusive th\<close>: the
  wait-target of the thread is not among the locks it holds.
\<close>

definition locks_extend :: "state \<Rightarrow> state \<Rightarrow> bool" where
  "locks_extend s s' \<longleftrightarrow>
     prefix (locks s) (locks s') \<and> length (heapLocks s) \<le> length (heapLocks s') \<and>
     (\<forall>r < length (heapLocks s).
        lock_id (heapLocks s' ! r) = lock_id (heapLocks s ! r) \<and>
        className (heapLocks s' ! r) = className (heapLocks s ! r))"

definition exclusive :: "Thread \<Rightarrow> bool" where
  "exclusive th \<longleftrightarrow>
     (case lockWaitingFor th of None \<Rightarrow> True | Some l \<Rightarrow> l \<notin> set (locksHeld th))"

text \<open>
  \<open>all_exclusive s\<close>: every thread of the heap is \<open>exclusive\<close>. \<open>breaks_exclusion line s\<close>: there
  is a current thread, and the line is a wait record that names a lock among the locks
  the current thread holds, or a held-lock record that names the current thread's
  wait-target (the named lock is the one \<open>getOrCreateLock\<close> returns).
  \<open>lines_keep_exclusion lines s\<close>: no line of \<open>lines\<close>, consumed in order from \<open>s\<close>, breaks
  exclusion in the state in which it is consumed. \<open>anonymous_waiter th\<close>: the two filters of
  \<open>identifyAnonymousSynchronizers\<close>, a status among \<open>validStatuses\<close> and no wait-target.
  \<open>holds_twice th\<close>: the first classical lock of the thread occurs more than once among
  the locks it holds. \<open>reattributed s\<close>: the locks the resolver takes from their holders in
  \<open>s\<close>, the first classical lock of each anonymous waiter of the dump.

  \<open>owner_in s l\<close>: the owner of lock \<open>l\<close>, none when \<open>l\<close> is not in the heap.
  \<open>takes_ownership line s\<close>: the lock whose owner the line sets: with a current thread, the
  lock named by a held-lock record or by a \<open>locked\<close> record that is not discarded (its id
  is not the id of the current thread's wait-target). \<open>last_owner lines s l before\<close>: the
  current thread of the last line of \<open>lines\<close>, consumed in order from \<open>s\<close>, that takes
  ownership of \<open>l\<close>; \<open>before\<close> when there is none.
\<close>

definition all_exclusive :: "state \<Rightarrow> bool" where
  "all_exclusive s \<longleftrightarrow> (\<forall>u < length (heapThreads s). exclusive (heapThreads s ! u))"

definition breaks_exclusion :: "string \<Rightarrow> state \<Rightarrow> bool" where
  "breaks_exclusion line s \<longleftrightarrow>
     (case currentThread s of
        None \<Rightarrow> False
      | Some t \<Rightarrow>
          (case classify line of
             WaitRecord i cn \<Rightarrow>
               fst (getOrCreateLock i cn s) \<in> set (locksHeld (heapThreads s ! t))
           | HeldLock i cn \<Rightarrow>
               lockWaitingFor (heapThreads s ! t) = Some (fst (getOrCreateLock i cn s))
           | _ \<Rightarrow> False))"

fun lines_keep_exclusion :: "string list \<Rightarrow> state \<Rightarrow> bool" where
  "lines_keep_exclusion [] s = True"
| "lines_keep_exclusion (ln # lns) s =
     (\<not> breaks_exclusion ln s \<and> lines_keep_exclusion lns (parseLine ln s))"

definition anonymous_waiter :: "Thread \<Rightarrow> bool" where
  "anonymous_waiter th \<longleftrightarrow>
     lockWaitingFor th = None \<and>
     (case status th of Some (Member st) \<Rightarrow> st \<in> set validStatuses | _ \<Rightarrow> False)"

definition holds_twice :: "Thread \<Rightarrow> bool" where
  "holds_twice th \<longleftrightarrow>
     (case classicalLocksHeld th of
        [] \<Rightarrow> False
      | lock # _ \<Rightarrow> 1 < count_list (locksHeld th) lock)"

definition reattributed :: "state \<Rightarrow> nat list" where
  "reattributed s =
     concat (map (\<lambda>t. take 1 (classicalLocksHeld (heapThreads s ! t)))
       (filter (\<lambda>t. anonymous_waiter (heapThreads s ! t)) (threads s)))"

definition owner_in :: "state \<Rightarrow> nat \<Rightarrow> nat option" where
  "owner_in s l = (if l < length (heapLocks s) then owner (heapLocks s ! l) else None)"

definition takes_ownership :: "string \<Rightarrow> state \<Rightarrow> nat option" where
  "takes_ownership line s =
     (case currentThread s of
        None \<Rightarrow> None
      | Some t \<Rightarrow>
          (case classify line of
             LockedRecord i cn \<Rightarrow>
               if (case lockWaitingFor (heapThreads s ! t) of
                     Some w \<Rightarrow> lock_id (heapLocks s ! w) = i | None \<Rightarrow> False)
               then None
               else Some (fst (getOrCreateLock i cn s))
           | HeldLock i cn \<Rightarrow> Some (fst (getOrCreateLock i cn s))
           | _ \<Rightarrow> None))"

fun last_owner :: "string list \<Rightarrow> state \<Rightarrow> nat \<Rightarrow> nat option \<Rightarrow> nat option" where
  "last_owner [] s l before = before"
| "last_owner (ln # lns) s l before =
     last_owner lns (parseLine ln s) l
       (if takes_ownership ln s = Some l then currentThread s else before)"

subsection \<open>Example documents\<close>

definition header_T :: string where
  \<comment> \<open>the line \<open>"T" nid=1\<close>\<close>
  "header_T = CHR 0x22 # ''T'' @ CHR 0x22 # '' nid=1''"

definition doc_waiting_no_lock :: string where
  "doc_waiting_no_lock =
     header_T @ CHR 0x0A # ''   java.lang.Thread.State: WAITING (on object monitor)''"

definition doc_two_waits :: string where
  "doc_two_waits = header_T @ CHR 0x0A # ''   - waiting on <0x1> (a A)'' @
     CHR 0x0A # ''   - waiting on <0x2> (a B)''"

definition state_two_waits :: state where
  "state_two_waits =
     \<lparr>heapThreads =
        [\<lparr>name = ''T'', thread_id = Num 1, status = None, stackTrace = [],
          locksHeld = [], classicalLocksHeld = [], lockWaitingFor = Some 1\<rparr>],
      heapLocks =
        [\<lparr>lock_id = ''0x1'', className = ''A'', owner = None, waiting = [0]\<rparr>,
         \<lparr>lock_id = ''0x2'', className = ''B'', owner = None, waiting = [0]\<rparr>],
      currentThread = Some 0, threads = [0], locks = [0, 1]\<rparr>"

definition doc_locked_then_wait :: string where
  "doc_locked_then_wait = header_T @ CHR 0x0A # ''   - locked <0x1> (a A)'' @
     CHR 0x0A # ''   - waiting on <0x1> (a A)''"

definition state_locked_then_wait :: state where
  "state_locked_then_wait =
     \<lparr>heapThreads =
        [\<lparr>name = ''T'', thread_id = Num 1, status = None, stackTrace = [],
          locksHeld = [0], classicalLocksHeld = [0], lockWaitingFor = Some 0\<rparr>],
      heapLocks =
        [\<lparr>lock_id = ''0x1'', className = ''A'', owner = Some 0, waiting = [0]\<rparr>],
      currentThread = Some 0, threads = [0], locks = [0]\<rparr>"

definition doc_scenario :: string where
  \<comment> \<open>the three lines of the scenario of section 8\<close>
  "doc_scenario = CHR 0x22 # ''Thread-1'' @ CHR 0x22 # '' nid=0x1'' @
     CHR 0x0A # ''   java.lang.Thread.State: RUNNABLE'' @
     CHR 0x0A # ''   at com.example.Foo.bar(Foo.java:10)''"

definition doc_preamble :: string where
  \<comment> \<open>a wait record before the first thread header\<close>
  "doc_preamble = ''   - waiting on <0x1> (a A)'' @ CHR 0x0A # header_T"

definition state_first_parse :: state where
  "state_first_parse =
     \<lparr>heapThreads =
        [\<lparr>name = ''T'', thread_id = Num 1, status = None, stackTrace = [],
          locksHeld = [], classicalLocksHeld = [], lockWaitingFor = None\<rparr>],
      heapLocks = [], currentThread = Some 0, threads = [0], locks = []\<rparr>"

definition state_second_parse :: state where
  "state_second_parse =
     \<lparr>heapThreads =
        [\<lparr>name = ''T'', thread_id = Num 1, status = None, stackTrace = [],
          locksHeld = [], classicalLocksHeld = [], lockWaitingFor = Some 0\<rparr>,
         \<lparr>name = ''T'', thread_id = Num 1, status = None, stackTrace = [],
          locksHeld = [], classicalLocksHeld = [], lockWaitingFor = None\<rparr>],
      heapLocks = [\<lparr>lock_id = ''0x1'', className = ''A'', owner = None, waiting = [0]\<rparr>],
      currentThread = Some 1, threads = [1], locks = [0]\<rparr>"

definition doc_waiting_locked :: string where
  "doc_waiting_locked = header_T @ CHR 0x0A # ''   java.lang.Thread.State: WAITING'' @
     CHR 0x0A # ''   - locked <0x1> (a A)''"

definition state_lines_consumed :: state where
  \<comment> \<open>\<open>doc_waiting_locked\<close> after its last line, before the resolver\<close>
  "state_lines_consumed =
     \<lparr>heapThreads =
        [\<lparr>name = ''T'', thread_id = Num 1, status = Some (Member WAITING), stackTrace = [],
          locksHeld = [0], classicalLocksHeld = [0], lockWaitingFor = None\<rparr>],
      heapLocks =
        [\<lparr>lock_id = ''0x1'', className = ''A'', owner = Some 0, waiting = []\<rparr>],
      currentThread = Some 0, threads = [0], locks = [0]\<rparr>"

definition state_resolved :: state where
  \<comment> \<open>\<open>doc_waiting_locked\<close> after the resolver\<close>
  "state_resolved =
     \<lparr>heapThreads =
        [\<lparr>name = ''T'', thread_id = Num 1, status = Some (Member WAITING), stackTrace = [],
          locksHeld = [], classicalLocksHeld = [], lockWaitingFor = Some 0\<rparr>],
      heapLocks =
        [\<lparr>lock_id = ''0x1'', className = ''A'', owner = None, waiting = [0]\<rparr>],
      currentThread = Some 0, threads = [0], locks = [0]\<rparr>"

definition doc_constructor :: string where
  "doc_constructor = header_T @ CHR 0x0A # ''   java.lang.Thread.State: constructor''"

definition state_constructor :: state where
  "state_constructor =
     \<lparr>heapThreads =
        [\<lparr>name = ''T'', thread_id = Num 1, status = Some (Inherited ''constructor''),
          stackTrace = [], locksHeld = [], classicalLocksHeld = [], lockWaitingFor = None\<rparr>],
      heapLocks = [], currentThread = Some 0, threads = [0], locks = []\<rparr>"

definition line_nested :: string where
  \<comment> \<open>a line of the held-lock shape whose class text holds a second lock reference\<close>
  "line_nested = ''   - <0x1> (a X <0x2> (a Y))''"

definition lines_waiting :: "string list" where
  "lines_waiting = [header_T, ''   - waiting on <0x1> (a A)'']"

definition lines_two_threads :: "string list" where
  "lines_two_threads = [header_T, ''   - locked <0x1> (a A)'', header_T]"

definition header_U :: string where
  \<comment> \<open>the line \<open>"U" nid=2\<close>\<close>
  "header_U = CHR 0x22 # ''U'' @ CHR 0x22 # '' nid=2''"

definition doc_wait_then_held :: string where
  "doc_wait_then_held = header_T @ CHR 0x0A # ''   - waiting on <0x1> (a A)'' @
     CHR 0x0A # ''   - <0x1> (a A)''"

definition state_wait_then_held :: state where
  "state_wait_then_held =
     \<lparr>heapThreads =
        [\<lparr>name = ''T'', thread_id = Num 1, status = None, stackTrace = [],
          locksHeld = [0], classicalLocksHeld = [], lockWaitingFor = Some 0\<rparr>],
      heapLocks =
        [\<lparr>lock_id = ''0x1'', className = ''A'', owner = Some 0, waiting = [0]\<rparr>],
      currentThread = Some 0, threads = [0], locks = [0]\<rparr>"

definition doc_locked_twice :: string where
  "doc_locked_twice = header_T @ CHR 0x0A # ''   java.lang.Thread.State: WAITING'' @
     CHR 0x0A # ''   - locked <0x1> (a A)'' @ CHR 0x0A # ''   - locked <0x1> (a A)''"

definition state_locked_twice_lines :: state where
  \<comment> \<open>\<open>doc_locked_twice\<close> after its last line, before the resolver\<close>
  "state_locked_twice_lines =
     \<lparr>heapThreads =
        [\<lparr>name = ''T'', thread_id = Num 1, status = Some (Member WAITING), stackTrace = [],
          locksHeld = [0, 0], classicalLocksHeld = [0, 0], lockWaitingFor = None\<rparr>],
      heapLocks =
        [\<lparr>lock_id = ''0x1'', className = ''A'', owner = Some 0, waiting = []\<rparr>],
      currentThread = Some 0, threads = [0], locks = [0]\<rparr>"

definition state_locked_twice :: state where
  \<comment> \<open>\<open>doc_locked_twice\<close> after the resolver\<close>
  "state_locked_twice =
     \<lparr>heapThreads =
        [\<lparr>name = ''T'', thread_id = Num 1, status = Some (Member WAITING), stackTrace = [],
          locksHeld = [0], classicalLocksHeld = [0], lockWaitingFor = Some 0\<rparr>],
      heapLocks =
        [\<lparr>lock_id = ''0x1'', className = ''A'', owner = None, waiting = [0]\<rparr>],
      currentThread = Some 0, threads = [0], locks = [0]\<rparr>"

definition doc_locked_by_waiter :: string where
  \<comment> \<open>thread T locks \<open>0x1\<close>; thread U waits on \<open>0x1\<close> and has a \<open>locked\<close> record for it\<close>
  "doc_locked_by_waiter = header_T @ CHR 0x0A # ''   - locked <0x1> (a A)'' @
     CHR 0x0A # header_U @ CHR 0x0A # ''   - waiting on <0x1> (a A)'' @
     CHR 0x0A # ''   - locked <0x1> (a A)''"

definition state_locked_by_waiter :: state where
  "state_locked_by_waiter =
     \<lparr>heapThreads =
        [\<lparr>name = ''T'', thread_id = Num 1, status = None, stackTrace = [],
          locksHeld = [0], classicalLocksHeld = [0], lockWaitingFor = None\<rparr>,
         \<lparr>name = ''U'', thread_id = Num 2, status = None, stackTrace = [],
          locksHeld = [], classicalLocksHeld = [], lockWaitingFor = Some 0\<rparr>],
      heapLocks =
        [\<lparr>lock_id = ''0x1'', className = ''A'', owner = Some 0, waiting = [1]\<rparr>],
      currentThread = Some 1, threads = [0, 1], locks = [0]\<rparr>"

definition doc_two_owners :: string where
  \<comment> \<open>threads T and U each have a \<open>locked\<close> record for \<open>0x1\<close>\<close>
  "doc_two_owners = header_T @ CHR 0x0A # ''   - locked <0x1> (a A)'' @
     CHR 0x0A # header_U @ CHR 0x0A # ''   - locked <0x1> (a A)''"

definition state_two_owners :: state where
  "state_two_owners =
     \<lparr>heapThreads =
        [\<lparr>name = ''T'', thread_id = Num 1, status = None, stackTrace = [],
          locksHeld = [0], classicalLocksHeld = [0], lockWaitingFor = None\<rparr>,
         \<lparr>name = ''U'', thread_id = Num 2, status = None, stackTrace = [],
          locksHeld = [0], classicalLocksHeld = [0], lockWaitingFor = None\<rparr>],
      heapLocks =
        [\<lparr>lock_id = ''0x1'', className = ''A'', owner = Some 1, waiting = []\<rparr>],
      currentThread = Some 1, threads = [0, 1], locks = [0]\<rparr>"

section \<open>Properties\<close>

subsection \<open>Heap updates and the lock registry\<close>

lemma upd_thread_simps [simp]:
  "heapThreads (upd_thread t f s) = (heapThreads s)[t := f (heapThreads s ! t)]"
  "heapLocks (upd_thread t f s) = heapLocks s"
  "currentThread (upd_thread t f s) = currentThread s"
  "threads (upd_thread t f s) = threads s"
  "locks (upd_thread t f s) = locks s"
  by (simp_all add: upd_thread_def)

lemma upd_lock_simps [simp]:
  "heapLocks (upd_lock l f s) = (heapLocks s)[l := f (heapLocks s ! l)]"
  "heapThreads (upd_lock l f s) = heapThreads s"
  "currentThread (upd_lock l f s) = currentThread s"
  "threads (upd_lock l f s) = threads s"
  "locks (upd_lock l f s) = locks s"
  by (simp_all add: upd_lock_def)

lemma find_id_append:
  assumes "\<forall>r \<in> set rs. r < length h"
  shows "find (\<lambda>r. lock_id ((h @ h') ! r) = i) rs = find (\<lambda>r. lock_id (h ! r) = i) rs"
  using assms by (induction rs) (auto simp: nth_append)

lemma find_Some_D: "find P xs = Some x \<Longrightarrow> x \<in> set xs \<and> P x"
  by (induction xs) (auto split: if_splits)

lemma find_app:
  "find P (xs @ ys) = (case find P xs of None \<Rightarrow> find P ys | Some x \<Rightarrow> Some x)"
  by (induction xs) auto

lemma find_id_new:
  assumes "\<forall>r \<in> set rs. r < length h" "find (\<lambda>r. lock_id (h ! r) = i) rs = None"
  shows "find (\<lambda>r. lock_id ((h @ [k]) ! r) = i) (rs @ [length h]) =
    (if lock_id k = i then Some (length h) else None)"
  using assms by (simp add: find_app find_id_append)

lemma getOrCreateLock_found:
  assumes "find (\<lambda>r. lock_id (heapLocks s ! r) = i) (locks s) = Some l"
  shows "getOrCreateLock i cn s = (l, s)"
  using assms by (simp add: getOrCreateLock_def)

lemma getOrCreateLock_created:
  assumes "find (\<lambda>r. lock_id (heapLocks s ! r) = i) (locks s) = None"
  shows "getOrCreateLock i cn s =
     (length (heapLocks s),
      s\<lparr>heapLocks := heapLocks s @ [\<lparr>lock_id = i, className = cn, owner = None, waiting = []\<rparr>],
        locks := locks s @ [length (heapLocks s)]\<rparr>)"
  using assms by (simp add: getOrCreateLock_def new_Lock_def)

lemma getOrCreateLock_frame:
  assumes "getOrCreateLock i cn s = (l, s1)"
  shows "heapThreads s1 = heapThreads s" "currentThread s1 = currentThread s"
    "threads s1 = threads s" "prefix (locks s) (locks s1)"
    "prefix (heapLocks s) (heapLocks s1)"
  using assms by (auto simp: getOrCreateLock_def split: option.splits)

lemma getOrCreateLock_result:
  assumes "getOrCreateLock i cn s = (l, s1)" "locks_ok s"
  shows "locks_ok s1" "l \<in> set (locks s1)" "l < length (heapLocks s1)"
    "lock_id (heapLocks s1 ! l) = i"
    "find (\<lambda>r. lock_id (heapLocks s1 ! r) = i) (locks s1) = Some l"
proof -
  show "locks_ok s1" using assms
    by (auto simp: getOrCreateLock_def locks_ok_def less_Suc_eq split: option.splits)
  show "find (\<lambda>r. lock_id (heapLocks s1 ! r) = i) (locks s1) = Some l"
  proof (cases "find (\<lambda>r. lock_id (heapLocks s ! r) = i) (locks s)")
    case None
    then show ?thesis using assms
      by (auto simp: getOrCreateLock_created find_id_new locks_ok_def)
  next
    case (Some a)
    then show ?thesis using assms by (simp add: getOrCreateLock_found)
  qed
  then show "l \<in> set (locks s1)" "lock_id (heapLocks s1 ! l) = i"
    by (auto dest: find_Some_D)
  then show "l < length (heapLocks s1)" using \<open>locks_ok s1\<close> by (simp add: locks_ok_def)
qed

lemma thread_ok_mono: "thread_ok n th \<Longrightarrow> n \<le> m \<Longrightarrow> thread_ok m th"
  unfolding thread_ok_def by (meson less_le_trans)

lemma lock_ok_mono: "lock_ok n lk \<Longrightarrow> n \<le> m \<Longrightarrow> lock_ok m lk"
  unfolding lock_ok_def by (meson less_le_trans)

lemma heap_ok_locks_ok: "heap_ok s \<Longrightarrow> locks_ok s"
  by (simp add: heap_ok_def locks_ok_def)

lemma heap_ok_fresh: "heap_ok fresh_process"
  by (simp add: heap_ok_def fresh_process_def)

lemma heap_ok_new_dump: "heap_ok s \<Longrightarrow> heap_ok (s\<lparr>threads := [], locks := []\<rparr>)"
  by (simp add: heap_ok_def)

lemma heap_ok_header: "heap_ok s \<Longrightarrow> heap_ok (parseThreadHeader h s)"
  unfolding heap_ok_def parseThreadHeader_def
  by (auto simp: nth_append less_Suc_eq new_Thread_def thread_ok_def
      intro: lock_ok_mono[where n = "length (heapThreads s)"])

lemma heap_ok_upd_thread:
  assumes "heap_ok s" "t < length (heapThreads s) \<Longrightarrow> thread_ok (length (heapLocks s)) (f (heapThreads s ! t))"
  shows "heap_ok (upd_thread t f s)"
  using assms unfolding heap_ok_def
  by (cases "t < length (heapThreads s)") (auto simp: nth_list_update)

lemma heap_ok_upd_lock:
  assumes "heap_ok s" "l < length (heapLocks s) \<Longrightarrow> lock_ok (length (heapThreads s)) (f (heapLocks s ! l))"
  shows "heap_ok (upd_lock l f s)"
  using assms unfolding heap_ok_def
  by (cases "l < length (heapLocks s)") (auto simp: nth_list_update)

lemma heap_ok_getOrCreateLock:
  assumes "heap_ok s" "getOrCreateLock i cn s = (l, s1)"
  shows "heap_ok s1"
proof (cases "find (\<lambda>r. lock_id (heapLocks s ! r) = i) (locks s)")
  case None
  from assms(2) have s1: "s1 = s\<lparr>heapLocks := heapLocks s @ [\<lparr>lock_id = i, className = cn, owner = None, waiting = []\<rparr>],
        locks := locks s @ [length (heapLocks s)]\<rparr>"
    unfolding getOrCreateLock_created[OF None] by auto
  show ?thesis using assms(1) unfolding heap_ok_def s1
    by (auto simp: nth_append less_Suc_eq lock_ok_def
        intro: thread_ok_mono[where n = "length (heapLocks s)"])
next
  case (Some a)
  then show ?thesis using assms by (simp add: getOrCreateLock_found)
qed

lemma getOrCreateLock_valid:
  assumes "heap_ok s" "getOrCreateLock i cn s = (l, s1)"
  shows "l < length (heapLocks s1)" "heapThreads s1 = heapThreads s"
    "currentThread s1 = currentThread s"
  using getOrCreateLock_result(3)[OF assms(2) heap_ok_locks_ok[OF assms(1)]]
    getOrCreateLock_frame[OF assms(2)] by auto

lemma heap_ok_thread:
  "heap_ok s \<Longrightarrow> t < length (heapThreads s) \<Longrightarrow> thread_ok (length (heapLocks s)) (heapThreads s ! t)"
  by (simp add: heap_ok_def)

lemma heap_ok_lock:
  "heap_ok s \<Longrightarrow> l < length (heapLocks s) \<Longrightarrow> lock_ok (length (heapThreads s)) (heapLocks s ! l)"
  by (simp add: heap_ok_def)

lemma heap_ok_current:
  "heap_ok s \<Longrightarrow> currentThread s = Some t \<Longrightarrow> t < length (heapThreads s)"
  by (simp add: heap_ok_def)

lemma thread_ok_simps [simp]:
  "thread_ok n (th\<lparr>locksHeld := hs\<rparr>) = thread_ok n th"
  "thread_ok n (th\<lparr>stackTrace := st\<rparr>) = thread_ok n th"
  "thread_ok n (th\<lparr>status := x\<rparr>) = thread_ok n th"
  "thread_ok n (th\<lparr>lockWaitingFor := Some l\<rparr>) = (l < n \<and> thread_ok n (th\<lparr>lockWaitingFor := None\<rparr>))"
  by (auto simp: thread_ok_def)

lemma thread_ok_classical:
  "thread_ok n th \<Longrightarrow> set cs \<subseteq> insert l (set (classicalLocksHeld th)) \<Longrightarrow> l < n \<Longrightarrow>
   thread_ok n (th\<lparr>classicalLocksHeld := cs\<rparr>)"
  by (auto simp: thread_ok_def)

lemma thread_ok_weaken:
  "thread_ok n th \<Longrightarrow> thread_ok n (th\<lparr>lockWaitingFor := None\<rparr>)"
  "thread_ok n th \<Longrightarrow> l \<in> set (classicalLocksHeld th) \<Longrightarrow> l < n"
  by (auto simp: thread_ok_def)

lemma lock_ok_simps [simp]:
  "lock_ok m (lk\<lparr>owner := x\<rparr>) = lock_ok m lk"
  "lock_ok m (lk\<lparr>waiting := waiting lk @ [t]\<rparr>) = (t < m \<and> lock_ok m lk)"
  by (auto simp: lock_ok_def)

lemma heap_ok_wait_record:
  assumes "heap_ok s" "currentThread s = Some t"
  shows "heap_ok (wait_record t i cn s)"
proof -
  obtain l s1 where g: "getOrCreateLock i cn s = (l, s1)" by (cases "getOrCreateLock i cn s")
  note h1 = heap_ok_getOrCreateLock[OF assms(1) g] and v = getOrCreateLock_valid[OF assms(1) g]
  have t: "t < length (heapThreads s1)" using heap_ok_current[OF assms] v by simp
  have h2: "heap_ok (upd_lock l (\<lambda>l. l\<lparr>waiting := waiting l @ [t]\<rparr>) s1)"
    using h1 t by (intro heap_ok_upd_lock) (simp_all add: heap_ok_lock)
  show ?thesis unfolding wait_record_def g prod.case
    using v(1) t by (intro heap_ok_upd_thread[OF h2]) (simp add: heap_ok_thread[OF h1] thread_ok_weaken)
qed

lemma heap_ok_locked_record:
  assumes "heap_ok s" "currentThread s = Some t"
  shows "heap_ok (locked_record t i cn s)"
proof -
  obtain l s1 where g: "getOrCreateLock i cn s = (l, s1)" by (cases "getOrCreateLock i cn s")
  note h1 = heap_ok_getOrCreateLock[OF assms(1) g] and v = getOrCreateLock_valid[OF assms(1) g]
  have h2: "heap_ok (upd_lock l (\<lambda>l. l\<lparr>owner := Some t\<rparr>) s1)"
    using h1 by (intro heap_ok_upd_lock) (simp_all add: heap_ok_lock)
  have h3: "heap_ok (upd_thread t (\<lambda>th. th\<lparr>locksHeld := locksHeld th @ [l]\<rparr>)
      (upd_lock l (\<lambda>l. l\<lparr>owner := Some t\<rparr>) s1))"
    by (intro heap_ok_upd_thread[OF h2]) (simp add: heap_ok_thread[OF h1])
  have "heap_ok (upd_thread t (\<lambda>th. th\<lparr>classicalLocksHeld := classicalLocksHeld th @ [l]\<rparr>)
      (upd_thread t (\<lambda>th. th\<lparr>locksHeld := locksHeld th @ [l]\<rparr>)
      (upd_lock l (\<lambda>l. l\<lparr>owner := Some t\<rparr>) s1)))"
    using v(1) heap_ok_thread[OF h1, of t]
    by (intro heap_ok_upd_thread[OF h3] thread_ok_classical[where l = l]) auto
  then show ?thesis unfolding locked_record_def g using assms(1) by simp
qed

lemma heap_ok_held_record:
  assumes "heap_ok s" "currentThread s = Some t"
  shows "heap_ok (held_record t i cn s)"
proof -
  obtain l s1 where g: "getOrCreateLock i cn s = (l, s1)" by (cases "getOrCreateLock i cn s")
  note h1 = heap_ok_getOrCreateLock[OF assms(1) g]
  have h2: "heap_ok (upd_lock l (\<lambda>l. l\<lparr>owner := Some t\<rparr>) s1)"
    using h1 by (intro heap_ok_upd_lock) (simp_all add: heap_ok_lock)
  show ?thesis unfolding held_record_def g prod.case
    by (intro heap_ok_upd_thread[OF h2]) (simp add: heap_ok_thread[OF h1])
qed

lemma parseStackLine_cases:
  assumes "P s"
    and "\<And>t f. currentThread s = Some t \<Longrightarrow> P (upd_thread t (\<lambda>th. th\<lparr>stackTrace := stackTrace th @ [f]\<rparr>) s)"
    and "\<And>t x. currentThread s = Some t \<Longrightarrow> P (upd_thread t (\<lambda>th. th\<lparr>status := Some x\<rparr>) s)"
    and "\<And>t i cn. currentThread s = Some t \<Longrightarrow> P (wait_record t i cn s)"
    and "\<And>t i cn. currentThread s = Some t \<Longrightarrow> P (locked_record t i cn s)"
    and "\<And>t i cn. currentThread s = Some t \<Longrightarrow> P (held_record t i cn s)"
  shows "P (parseStackLine ln s)"
  using assms unfolding parseStackLine_def sync_record_def
  by (simp split: option.splits)

lemma heap_ok_parseStackLine: "heap_ok s \<Longrightarrow> heap_ok (parseStackLine ln s)"
  by (rule parseStackLine_cases)
    (simp_all add: heap_ok_wait_record heap_ok_locked_record heap_ok_held_record
      heap_ok_upd_thread heap_ok_thread)

lemma heap_ok_parseLine: "heap_ok s \<Longrightarrow> heap_ok (parseLine ln s)"
  by (simp add: parseLine_def heap_ok_header heap_ok_parseStackLine)

lemma set_splice1: "set (splice1 k xs) \<subseteq> set xs"
  unfolding splice1_def Let_def
  by (auto dest: in_set_takeD in_set_dropD)

lemma heap_ok_resolve_thread:
  assumes "heap_ok s" "t < length (heapThreads s)" "resolve_thread t s = Inr s'"
  shows "heap_ok s'"
proof -
  obtain lock rest where c: "classicalLocksHeld (heapThreads s ! t) = lock # rest"
    using assms(3) by (cases "classicalLocksHeld (heapThreads s ! t)") (auto simp: resolve_thread_def)
  have l: "lock < length (heapLocks s)"
    using heap_ok_thread[OF assms(1,2)] c by (simp add: thread_ok_def)
  let ?s1 = "upd_lock lock (\<lambda>l. l\<lparr>owner := None\<rparr>) s"
  let ?s2 = "upd_lock lock (\<lambda>l. l\<lparr>waiting := waiting l @ [t]\<rparr>) ?s1"
  let ?s3 = "upd_thread t (\<lambda>th. th\<lparr>lockWaitingFor := Some lock\<rparr>) ?s2"
  let ?s4 = "upd_thread t (\<lambda>th. th\<lparr>locksHeld := splice1 (indexOf (locksHeld th) lock) (locksHeld th)\<rparr>) ?s3"
  let ?s5 = "upd_thread t (\<lambda>th. th\<lparr>classicalLocksHeld :=
                    splice1 (indexOf (classicalLocksHeld th) lock) (classicalLocksHeld th)\<rparr>) ?s4"
  have h1: "heap_ok ?s1" by (intro heap_ok_upd_lock[OF assms(1)]) (simp add: heap_ok_lock[OF assms(1)])
  have h2: "heap_ok ?s2" using assms(2) l heap_ok_lock[OF h1, of lock]
    by (intro heap_ok_upd_lock[OF h1]) (auto simp: lock_ok_def)
  have h3: "heap_ok ?s3" using assms(2) l heap_ok_thread[OF h2, of t]
    by (intro heap_ok_upd_thread[OF h2]) (simp add: thread_ok_weaken)
  have h4: "heap_ok ?s4" using heap_ok_thread[OF h3, of t]
    by (intro heap_ok_upd_thread[OF h3]) simp
  have h5: "heap_ok ?s5" using heap_ok_thread[OF h4, of t] l
    by (intro heap_ok_upd_thread[OF h4] thread_ok_classical[where l = lock])
      (auto dest: subsetD[OF set_splice1])
  have "s' = ?s5" using assms(3) c by (simp add: resolve_thread_def)
  then show ?thesis using h5 by simp
qed

lemma nth_upd: "(xs[t := y]) ! u = (if u = t \<and> t < length xs then y else xs ! u)"
  by (cases "t < length xs") (auto simp: nth_list_update list_update_beyond)

lemma wait_agreement_fresh: "wait_agreement fresh_process"
  by (simp add: wait_agreement_def fresh_process_def)

lemma wait_agreement_new_dump:
  "wait_agreement s \<Longrightarrow> wait_agreement (s\<lparr>threads := [], locks := []\<rparr>)"
  by (simp add: wait_agreement_def)

lemma wait_agreement_upd_thread:
  assumes "wait_agreement s" "\<And>th. lockWaitingFor (f th) = lockWaitingFor th"
  shows "wait_agreement (upd_thread t f s)"
  using assms unfolding wait_agreement_def
  by (auto simp: nth_upd)

lemma wait_agreement_upd_lock:
  assumes "wait_agreement s" "\<And>lk. waiting (f lk) = waiting lk"
  shows "wait_agreement (upd_lock l f s)"
  using assms unfolding wait_agreement_def
  by (auto simp: nth_upd)

lemma wait_agreement_link:
  assumes "heap_ok s" "wait_agreement s" "t < length (heapThreads s)" "l < length (heapLocks s)"
  shows "wait_agreement (upd_thread t (\<lambda>th. th\<lparr>lockWaitingFor := Some l\<rparr>)
           (upd_lock l (\<lambda>k. k\<lparr>waiting := waiting k @ [t]\<rparr>) s))"
  using assms(2-) unfolding wait_agreement_def
  by (auto simp: nth_upd)

lemma wait_agreement_header:
  assumes "heap_ok s" "wait_agreement s"
  shows "wait_agreement (parseThreadHeader h s)"
proof -
  have v: "\<And>l t. l < length (heapLocks s) \<Longrightarrow> t \<in> set (waiting (heapLocks s ! l)) \<Longrightarrow> t < length (heapThreads s)"
    using heap_ok_lock[OF assms(1)] by (auto simp: lock_ok_def)
  show ?thesis using assms(2) v unfolding wait_agreement_def parseThreadHeader_def
    by (auto simp: nth_append new_Thread_def)
qed

lemma wait_agreement_getOrCreateLock:
  assumes "heap_ok s" "wait_agreement s" "getOrCreateLock i cn s = (l, s1)"
  shows "wait_agreement s1"
proof (cases "find (\<lambda>r. lock_id (heapLocks s ! r) = i) (locks s)")
  case None
  have s1: "s1 = s\<lparr>heapLocks := heapLocks s @ [\<lparr>lock_id = i, className = cn, owner = None, waiting = []\<rparr>],
        locks := locks s @ [length (heapLocks s)]\<rparr>"
    using assms(3) unfolding getOrCreateLock_created[OF None] by auto
  have v: "\<And>l t. t < length (heapThreads s) \<Longrightarrow> lockWaitingFor (heapThreads s ! t) = Some l \<Longrightarrow> l < length (heapLocks s)"
    using heap_ok_thread[OF assms(1)] by (auto simp: thread_ok_def)
  show ?thesis using assms(2) v unfolding wait_agreement_def s1
    by (auto simp: nth_append less_Suc_eq)
next
  case (Some a)
  then show ?thesis using assms by (simp add: getOrCreateLock_found)
qed

lemma wait_agreement_wait_record:
  assumes "heap_ok s" "wait_agreement s" "currentThread s = Some t"
  shows "wait_agreement (wait_record t i cn s)"
proof -
  obtain l s1 where g: "getOrCreateLock i cn s = (l, s1)" by (cases "getOrCreateLock i cn s")
  note v = getOrCreateLock_valid[OF assms(1) g]
  have t: "t < length (heapThreads s1)" using heap_ok_current[OF assms(1,3)] v by simp
  show ?thesis unfolding wait_record_def g prod.case
    by (rule wait_agreement_link[OF heap_ok_getOrCreateLock[OF assms(1) g]
          wait_agreement_getOrCreateLock[OF assms(1,2) g] t v(1)])
qed

lemma wait_agreement_locked_record:
  assumes "heap_ok s" "wait_agreement s"
  shows "wait_agreement (locked_record t i cn s)"
proof -
  obtain l s1 where g: "getOrCreateLock i cn s = (l, s1)" by (cases "getOrCreateLock i cn s")
  show ?thesis unfolding locked_record_def g prod.case
    using assms(2) wait_agreement_getOrCreateLock[OF assms g]
    by (simp add: wait_agreement_upd_thread wait_agreement_upd_lock)
qed

lemma wait_agreement_held_record:
  assumes "heap_ok s" "wait_agreement s"
  shows "wait_agreement (held_record t i cn s)"
proof -
  obtain l s1 where g: "getOrCreateLock i cn s = (l, s1)" by (cases "getOrCreateLock i cn s")
  show ?thesis unfolding held_record_def g prod.case
    using wait_agreement_getOrCreateLock[OF assms g]
    by (simp add: wait_agreement_upd_thread wait_agreement_upd_lock)
qed

lemma wait_agreement_parseStackLine:
  "heap_ok s \<Longrightarrow> wait_agreement s \<Longrightarrow> wait_agreement (parseStackLine ln s)"
  by (rule parseStackLine_cases)
    (simp_all add: wait_agreement_wait_record wait_agreement_locked_record
      wait_agreement_held_record wait_agreement_upd_thread)

lemma wait_agreement_parseLine:
  "heap_ok s \<Longrightarrow> wait_agreement s \<Longrightarrow> wait_agreement (parseLine ln s)"
  by (simp add: parseLine_def wait_agreement_header wait_agreement_parseStackLine)

lemma wait_agreement_resolve_thread:
  assumes "heap_ok s" "wait_agreement s" "t < length (heapThreads s)" "resolve_thread t s = Inr s'"
  shows "wait_agreement s'"
proof -
  obtain lock rest where c: "classicalLocksHeld (heapThreads s ! t) = lock # rest"
    using assms(4) by (cases "classicalLocksHeld (heapThreads s ! t)") (auto simp: resolve_thread_def)
  have l: "lock < length (heapLocks s)"
    using heap_ok_thread[OF assms(1,3)] c by (simp add: thread_ok_def)
  let ?s1 = "upd_lock lock (\<lambda>l. l\<lparr>owner := None\<rparr>) s"
  have h1: "heap_ok ?s1" by (intro heap_ok_upd_lock[OF assms(1)]) (simp add: heap_ok_lock[OF assms(1)])
  have w1: "wait_agreement ?s1" by (intro wait_agreement_upd_lock[OF assms(2)]) simp
  have "wait_agreement (upd_thread t (\<lambda>th. th\<lparr>lockWaitingFor := Some lock\<rparr>)
           (upd_lock lock (\<lambda>k. k\<lparr>waiting := waiting k @ [t]\<rparr>) ?s1))"
    using assms(3) l by (intro wait_agreement_link[OF h1 w1]) simp_all
  then show ?thesis using assms(4) c
    by (auto simp: resolve_thread_def intro!: wait_agreement_upd_thread)
qed

lemma reachable_consistent: "reachable s \<Longrightarrow> heap_ok s \<and> wait_agreement s"
proof (induction rule: reachable.induct)
  case fresh
  show ?case by (simp add: heap_ok_fresh wait_agreement_fresh)
next
  case (new_dump s)
  then show ?case by (simp add: heap_ok_new_dump wait_agreement_new_dump)
next
  case (line s ln)
  then show ?case by (simp add: heap_ok_parseLine wait_agreement_parseLine)
next
  case (resolve s t s')
  then have "t < length (heapThreads s)" by (simp add: heap_ok_def)
  with resolve show ?case
    using heap_ok_resolve_thread wait_agreement_resolve_thread by blast
qed

lemma reachable_fold: "reachable s \<Longrightarrow> reachable (fold parseLine ls s)"
  by (induction ls arbitrary: s) (auto intro: reachable.line)

lemma resolve_thread_threads:
  "resolve_thread t s = Inr s' \<Longrightarrow> threads s' = threads s"
  by (auto simp: resolve_thread_def split: list.splits)

lemma reachable_forEach:
  "reachable s \<Longrightarrow> set ts \<subseteq> set (threads s) \<Longrightarrow> forEach_resolve ts s = Inr s' \<Longrightarrow> reachable s'"
proof (induction ts arbitrary: s)
  case Nil
  then show ?case by simp
next
  case (Cons t ts)
  then obtain s1 where r: "resolve_thread t s = Inr s1" and f: "forEach_resolve ts s1 = Inr s'"
    by (auto split: sum.splits)
  have "reachable s1" using Cons.prems(1,2) r by (auto intro: reachable.resolve)
  moreover have "set ts \<subseteq> set (threads s1)" using Cons.prems(2) resolve_thread_threads[OF r] by simp
  ultimately show ?case using Cons.IH f by blast
qed

lemma reachable_parseThreadDump:
  assumes "reachable p" "parseThreadDump text p = Inr s'"
  shows "reachable s'"
  using assms(2) unfolding parseThreadDump_def identifyAnonymousSynchronizers_def
  by (rule reachable_forEach[rotated 2])
    (auto intro: reachable_fold reachable.new_dump assms(1))

subsection \<open>Lock identity across lines\<close>

lemma find_None_id:
  "(find (\<lambda>r. lock_id (h ! r) = i) rs = None) = (\<forall>r \<in> set rs. lock_id (h ! r) \<noteq> i)"
  by (induction rs) auto

lemma locks_extend_refl: "locks_extend s s"
  by (simp add: locks_extend_def)

lemma locks_extend_trans: "locks_extend s s1 \<Longrightarrow> locks_extend s1 s2 \<Longrightarrow> locks_extend s s2"
  unfolding locks_extend_def by (auto intro: prefix_order.order_trans)

lemma locks_extend_upd_thread [simp]:
  "locks_extend s (upd_thread t f s') = locks_extend s s'"
  by (simp add: locks_extend_def)

lemma locks_extend_upd_lock:
  assumes "\<And>k. lock_id (f k) = lock_id k" "\<And>k. className (f k) = className k"
  shows "locks_extend s (upd_lock l f s)"
  using assms by (simp add: locks_extend_def nth_upd)

lemma locks_extend_getOrCreateLock:
  "getOrCreateLock i cn s = (l, s1) \<Longrightarrow> locks_extend s s1"
  by (auto simp: getOrCreateLock_def locks_extend_def nth_append split: option.splits)

lemma locks_extend_header: "locks_extend s (parseThreadHeader h s)"
  by (simp add: locks_extend_def parseThreadHeader_def)

lemma locks_extend_parseStackLine: "locks_extend s (parseStackLine ln s)"
proof (rule parseStackLine_cases)
  fix t i cn
  obtain l s1 where g: "getOrCreateLock i cn s = (l, s1)" by (cases "getOrCreateLock i cn s")
  note e = locks_extend_getOrCreateLock[OF g]
  have w: "locks_extend s (upd_lock l (\<lambda>l. l\<lparr>waiting := waiting l @ [t]\<rparr>) s1)"
    by (rule locks_extend_trans[OF e]) (simp add: locks_extend_upd_lock)
  have o: "locks_extend s (upd_lock l (\<lambda>l. l\<lparr>owner := Some t\<rparr>) s1)"
    by (rule locks_extend_trans[OF e]) (simp add: locks_extend_upd_lock)
  show "locks_extend s (wait_record t i cn s)"
    unfolding wait_record_def g prod.case using w by simp
  show "locks_extend s (held_record t i cn s)"
    unfolding held_record_def g prod.case using o by simp
  show "locks_extend s (locked_record t i cn s)"
    unfolding locked_record_def g prod.case using o by (simp add: locks_extend_refl)
qed (simp_all add: locks_extend_refl)

lemma locks_extend_parseLine: "locks_extend s (parseLine ln s)"
  by (simp add: parseLine_def locks_extend_header locks_extend_parseStackLine locks_extend_refl)

lemma locks_extend_fold: "locks_extend s (fold parseLine lns s)"
proof (induction lns arbitrary: s)
  case Nil
  show ?case by (simp add: locks_extend_refl)
next
  case (Cons ln lns)
  show ?case using locks_extend_trans[OF locks_extend_parseLine Cons.IH] by simp
qed

lemma find_locks_extend:
  assumes "locks_ok s" "locks_extend s s'"
    "find (\<lambda>r. lock_id (heapLocks s ! r) = i) (locks s) = Some l"
  shows "find (\<lambda>r. lock_id (heapLocks s' ! r) = i) (locks s') = Some l"
proof -
  obtain more where m: "locks s' = locks s @ more"
    using assms(2) by (auto simp: locks_extend_def prefix_def)
  have "find (\<lambda>r. lock_id (heapLocks s' ! r) = i) (locks s) =
        find (\<lambda>r. lock_id (heapLocks s ! r) = i) (locks s)"
    using assms(1,2) by (intro find_cong) (auto simp: locks_ok_def locks_extend_def)
  then show ?thesis using assms(3) by (simp add: m find_app)
qed

lemma locks_extend_records:
  assumes "getOrCreateLock i cn s = (l, s1)"
  shows "locks_extend s1 (wait_record t i cn s)" "locks_extend s1 (held_record t i cn s)"
    "\<forall>w. lockWaitingFor (heapThreads s ! t) = Some w \<longrightarrow> lock_id (heapLocks s ! w) \<noteq> i \<Longrightarrow>
     locks_extend s1 (locked_record t i cn s)"
proof -
  show "locks_extend s1 (wait_record t i cn s)"
    by (simp add: wait_record_def assms locks_extend_upd_lock)
  show "locks_extend s1 (held_record t i cn s)"
    by (simp add: held_record_def assms locks_extend_upd_lock)
  assume "\<forall>w. lockWaitingFor (heapThreads s ! t) = Some w \<longrightarrow> lock_id (heapLocks s ! w) \<noteq> i"
  then have "\<not> (case lockWaitingFor (heapThreads s ! t) of
            Some w \<Rightarrow> lock_id (heapLocks s ! w) = i | None \<Rightarrow> False)"
    by (auto split: option.splits)
  then show "locks_extend s1 (locked_record t i cn s)"
    by (simp add: locked_record_def assms locks_extend_upd_lock)
qed

subsection \<open>Lines and records\<close>

lemma lazy_dot_Some: "lazy_dot k r = Some (g, v) \<Longrightarrow> \<exists>r'. k r' = Some v"
  by (induction r arbitrary: g) (auto split: option.splits if_splits)

lemma lock_reference_length: "lock_reference r = Some gs \<Longrightarrow> length gs = 2"
  by (auto simp: lock_reference_def split: option.splits if_splits)

lemma dash_line:
  assumes "takeWhile isSpace line \<noteq> []" "prefix ''- '' (dropWhile isSpace line)"
  shows "\<not> prefix [CHR 0x22] line" "line \<noteq> []" "FRAME_PATTERN line = None"
    "THREAD_STATE_PATTERN line = None"
proof -
  obtain c cs where l: "line = c # cs" "isSpace c"
    using assms(1) by (cases line) (auto split: if_splits)
  then show "\<not> prefix [CHR 0x22] line" "line \<noteq> []" by (auto simp: isSpace_def)
  obtain r where r: "dropWhile isSpace line = CHR ''-'' # CHR '' '' # r"
    using assms(2) by (auto simp: prefix_def)
  show "FRAME_PATTERN line = None" by (simp add: FRAME_PATTERN_def r)
  show "THREAD_STATE_PATTERN line = None" by (simp add: THREAD_STATE_PATTERN_def r)
qed

lemma sync_line:
  assumes "SYNCHRONIZATION_STATUS_PATTERN line = Some gs"
  shows "\<not> prefix [CHR 0x22] line" "line \<noteq> []" "matchOne line FRAME_PATTERN = []"
    "matchOne line THREAD_STATE_PATTERN = []" "length gs = 3"
proof -
  have d: "takeWhile isSpace line \<noteq> []" "prefix ''- '' (dropWhile isSpace line)"
    using assms by (auto simp: SYNCHRONIZATION_STATUS_PATTERN_def split: if_splits)
  show "\<not> prefix [CHR 0x22] line" "line \<noteq> []" "matchOne line FRAME_PATTERN = []"
    "matchOne line THREAD_STATE_PATTERN = []"
    using dash_line[OF d] by (simp_all add: matchOne_def)
  obtain g v where gv: "lazy_dot spaces_lock_reference (drop 2 (dropWhile isSpace line)) = Some (g, v)"
    "gs = g # v"
    using assms d by (auto simp: SYNCHRONIZATION_STATUS_PATTERN_def split: option.splits)
  obtain r' where "spaces_lock_reference r' = Some v" using lazy_dot_Some[OF gv(1)] by blast
  then have "length v = 2"
    by (auto simp: spaces_lock_reference_def lock_reference_length split: if_splits)
  then show "length gs = 3" by (simp add: gv(2))
qed

lemma held_line:
  assumes "HELD_LOCK_PATTERN line = Some gs"
  shows "\<not> prefix [CHR 0x22] line" "line \<noteq> []" "matchOne line FRAME_PATTERN = []"
    "matchOne line THREAD_STATE_PATTERN = []" "length gs = 2"
proof -
  have d: "takeWhile isSpace line \<noteq> []" "prefix ''- '' (dropWhile isSpace line)"
    using assms by (auto simp: HELD_LOCK_PATTERN_def split: if_splits)
  show "\<not> prefix [CHR 0x22] line" "line \<noteq> []" "matchOne line FRAME_PATTERN = []"
    "matchOne line THREAD_STATE_PATTERN = []"
    using dash_line[OF d] by (simp_all add: matchOne_def)
  show "length gs = 2" using assms d
    by (auto simp: HELD_LOCK_PATTERN_def lock_reference_length split: if_splits)
qed

lemma parseLine_sync:
  assumes "currentThread s = Some t" "SYNCHRONIZATION_STATUS_PATTERN line = Some [st, i, cn]"
  shows "parseLine line s = sync_record t st i cn s"
  using sync_line[OF assms(2)] assms
  by (simp add: parseLine_def parseStackLine_def matchMultipleGroups_def)

lemma parseLine_held:
  assumes "currentThread s = Some t" "SYNCHRONIZATION_STATUS_PATTERN line = None"
    "HELD_LOCK_PATTERN line = Some [i, cn]"
  shows "parseLine line s = held_record t i cn s"
  using held_line[OF assms(3)] assms
  by (simp add: parseLine_def parseStackLine_def matchMultipleGroups_def)

lemma parseLine_sync_no_thread:
  assumes "currentThread s = None" "SYNCHRONIZATION_STATUS_PATTERN line = Some gs"
  shows "parseLine line s = s"
  using sync_line[OF assms(2)] assms(1) by (simp add: parseLine_def parseStackLine_def)

lemma held_record_effect:
  assumes "heap_ok s" "currentThread s = Some t" "getOrCreateLock lockId cn s = (l, s1)"
  shows "owner (heapLocks (held_record t lockId cn s) ! l) = Some t"
    "locksHeld (heapThreads (held_record t lockId cn s) ! t) = locksHeld (heapThreads s ! t) @ [l]"
    "classicalLocksHeld (heapThreads (held_record t lockId cn s) ! t) =
       classicalLocksHeld (heapThreads s ! t)"
    "u \<noteq> t \<Longrightarrow> heapThreads (held_record t lockId cn s) ! u = heapThreads s ! u"
    "locks (held_record t lockId cn s) = locks s1"
    "find (\<lambda>r. lock_id (heapLocks (held_record t lockId cn s) ! r) = lockId)
       (locks (held_record t lockId cn s)) = Some l"
proof -
  note v = getOrCreateLock_valid[OF assms(1,3)]
    and res = getOrCreateLock_result[OF assms(3) heap_ok_locks_ok[OF assms(1)]]
  have t: "t < length (heapThreads s)" by (rule heap_ok_current[OF assms(1,2)])
  show "owner (heapLocks (held_record t lockId cn s) ! l) = Some t"
    using v(1) by (simp add: held_record_def assms(3))
  show "locksHeld (heapThreads (held_record t lockId cn s) ! t) = locksHeld (heapThreads s ! t) @ [l]"
    "classicalLocksHeld (heapThreads (held_record t lockId cn s) ! t) =
       classicalLocksHeld (heapThreads s ! t)"
    using t by (simp_all add: held_record_def assms(3) v(2))
  show "u \<noteq> t \<Longrightarrow> heapThreads (held_record t lockId cn s) ! u = heapThreads s ! u"
    by (simp add: held_record_def assms(3) v(2))
  show "locks (held_record t lockId cn s) = locks s1"
    by (simp add: held_record_def assms(3))
  have "find (\<lambda>r. lock_id (heapLocks (held_record t lockId cn s) ! r) = lockId) (locks s1) =
        find (\<lambda>r. lock_id (heapLocks s1 ! r) = lockId) (locks s1)"
    by (intro find_cong) (simp_all add: held_record_def assms(3) nth_upd)
  then show "find (\<lambda>r. lock_id (heapLocks (held_record t lockId cn s) ! r) = lockId)
       (locks (held_record t lockId cn s)) = Some l"
    using res(5) by (simp add: held_record_def assms(3))
qed

lemma locked_record_effect:
  assumes "heap_ok s" "currentThread s = Some t" "getOrCreateLock lockId cn s = (l, s1)"
    and "\<forall>w. lockWaitingFor (heapThreads s ! t) = Some w \<longrightarrow> lock_id (heapLocks s ! w) \<noteq> lockId"
  shows "owner (heapLocks (locked_record t lockId cn s) ! l) = Some t"
    "locksHeld (heapThreads (locked_record t lockId cn s) ! t) = locksHeld (heapThreads s ! t) @ [l]"
    "u \<noteq> t \<Longrightarrow> heapThreads (locked_record t lockId cn s) ! u = heapThreads s ! u"
proof -
  note v = getOrCreateLock_valid[OF assms(1,3)]
  have t: "t < length (heapThreads s)" by (rule heap_ok_current[OF assms(1,2)])
  have n: "\<not> (case lockWaitingFor (heapThreads s ! t) of
            Some w \<Rightarrow> lock_id (heapLocks s ! w) = lockId | None \<Rightarrow> False)"
    using assms(4) by (auto split: option.splits)
  show "owner (heapLocks (locked_record t lockId cn s) ! l) = Some t"
    using v(1) n by (simp add: locked_record_def assms(3))
  show "locksHeld (heapThreads (locked_record t lockId cn s) ! t) = locksHeld (heapThreads s ! t) @ [l]"
    using t n by (simp add: locked_record_def assms(3) v(2))
  show "u \<noteq> t \<Longrightarrow> heapThreads (locked_record t lockId cn s) ! u = heapThreads s ! u"
    using n by (simp add: locked_record_def assms(3) v(2))
qed

lemma reachable_lines: "reachable (fold parseLine lns fresh_process)"
  by (simp add: reachable_fold reachable.fresh)


subsection \<open>The branch a line takes\<close>

lemma parseLine_classify: "parseLine line s = apply_record line (classify line) s"
  unfolding parseLine_def parseStackLine_def classify_def apply_record_def sync_record_def
  by (simp split: option.splits)

lemma classify_sync:
  assumes "SYNCHRONIZATION_STATUS_PATTERN line = Some [st, i, cn]"
  shows "classify line =
     (if st = ''waiting on'' \<or> st = ''parking to wait for'' \<or> st = ''waiting to lock''
      then WaitRecord i cn else if st = ''locked'' then LockedRecord i cn else OtherSync)"
  using sync_line[OF assms] assms by (simp add: classify_def matchMultipleGroups_def)

lemma classify_held:
  assumes "SYNCHRONIZATION_STATUS_PATTERN line = None" "HELD_LOCK_PATTERN line = Some [i, cn]"
  shows "classify line = HeldLock i cn"
  using held_line[OF assms(2)] assms by (simp add: classify_def matchMultipleGroups_def)

lemma lazy_dot_first:
  assumes "lazy_dot k (c # cs) = Some (g, v)" "k (c # cs) = None"
  shows "\<exists>g'. g = c # g'"
  using assms by (auto split: option.splits if_splits)

lemma both_patterns_verb:
  assumes "HELD_LOCK_PATTERN line = Some hs" "SYNCHRONIZATION_STATUS_PATTERN line = Some gs"
  shows "\<exists>g. gs ! 0 = CHR ''<'' # g"
proof -
  let ?r = "drop 2 (dropWhile isSpace line)"
  have "lock_reference ?r = Some hs"
    using assms(1) by (auto simp: HELD_LOCK_PATTERN_def split: if_splits)
  then obtain r' where r: "?r = CHR ''<'' # r'"
    by (cases ?r) (auto simp: lock_reference_def split: if_splits)
  have n: "spaces_lock_reference (CHR ''<'' # r') = None"
    by (simp add: spaces_lock_reference_def)
  obtain g v where gv: "lazy_dot spaces_lock_reference ?r = Some (g, v)" "gs = g # v"
    using assms(2) by (auto simp: SYNCHRONIZATION_STATUS_PATTERN_def split: option.splits if_splits)
  from lazy_dot_first[OF gv(1)[unfolded r] n] gv(2) show ?thesis by auto
qed

lemma both_patterns_ignored:
  assumes "HELD_LOCK_PATTERN line = Some hs" "SYNCHRONIZATION_STATUS_PATTERN line = Some gs"
  shows "classify line = OtherSync" "parseLine line s = s"
proof -
  obtain g where g: "gs ! 0 = CHR ''<'' # g" using both_patterns_verb[OF assms] by blast
  show c: "classify line = OtherSync"
    using sync_line[OF assms(2)] assms(2) g by (simp add: classify_def matchMultipleGroups_def)
  show "parseLine line s = s" by (simp add: parseLine_classify c apply_record_def)
qed

subsection \<open>The owner of a lock, line by line\<close>

lemma owner_in_upd_thread [simp]: "owner_in (upd_thread t f s) l = owner_in s l"
  by (simp add: owner_in_def)

lemma owner_in_upd_lock:
  "owner_in (upd_lock k f s) l =
     (if l = k \<and> k < length (heapLocks s) then owner (f (heapLocks s ! k)) else owner_in s l)"
  by (simp add: owner_in_def nth_upd)

lemma owner_in_upd_lock_same:
  assumes "\<And>x. owner (f x) = owner x"
  shows "owner_in (upd_lock k f s) l = owner_in s l"
  using assms by (simp add: owner_in_def nth_upd)

lemma owner_in_getOrCreateLock:
  assumes "getOrCreateLock i cn s = (k, s1)"
  shows "owner_in s1 l = owner_in s l"
  using assms
  by (auto simp: getOrCreateLock_def owner_in_def nth_append new_Lock_def split: option.splits)

lemma owner_in_wait_record:
  "owner_in (wait_record t i cn s) l = owner_in s l"
proof -
  obtain k s1 where g: "getOrCreateLock i cn s = (k, s1)" by (cases "getOrCreateLock i cn s")
  show ?thesis
    by (simp add: wait_record_def g owner_in_upd_lock_same owner_in_getOrCreateLock[OF g])
qed

lemma owner_in_held_record:
  assumes "heap_ok s"
  shows "owner_in (held_record t i cn s) l =
     (if l = fst (getOrCreateLock i cn s) then Some t else owner_in s l)"
proof -
  obtain k s1 where g: "getOrCreateLock i cn s = (k, s1)" by (cases "getOrCreateLock i cn s")
  note v = getOrCreateLock_valid[OF assms g]
  show ?thesis using v(1)
    by (simp add: held_record_def g owner_in_upd_lock owner_in_getOrCreateLock[OF g])
qed

lemma owner_in_locked_record:
  assumes "heap_ok s"
  shows "owner_in (locked_record t i cn s) l =
     (if \<not> (case lockWaitingFor (heapThreads s ! t) of
                Some w \<Rightarrow> lock_id (heapLocks s ! w) = i | None \<Rightarrow> False) \<and>
         l = fst (getOrCreateLock i cn s)
      then Some t else owner_in s l)"
proof -
  obtain k s1 where g: "getOrCreateLock i cn s = (k, s1)" by (cases "getOrCreateLock i cn s")
  note v = getOrCreateLock_valid[OF assms g]
  show ?thesis using v(1)
    by (simp add: locked_record_def g owner_in_upd_lock owner_in_getOrCreateLock[OF g])
qed

lemma owner_in_header [simp]: "owner_in (parseThreadHeader h s) l = owner_in s l"
  by (simp add: owner_in_def parseThreadHeader_def)

lemma owner_in_parseLine:
  assumes "heap_ok s"
  shows "owner_in (parseLine ln s) l =
     (if takes_ownership ln s = Some l then currentThread s else owner_in s l)"
  unfolding parseLine_classify apply_record_def takes_ownership_def
  by (cases "classify ln"; cases "currentThread s")
    (simp_all add: owner_in_wait_record owner_in_held_record[OF assms]
      owner_in_locked_record[OF assms])

lemma owner_in_fold:
  assumes "reachable s"
  shows "owner_in (fold parseLine lns s) l = last_owner lns s l (owner_in s l)"
  using assms
proof (induction lns arbitrary: s)
  case Nil
  show ?case by simp
next
  case (Cons ln lns)
  have h: "heap_ok s" using reachable_consistent[OF Cons.prems] by simp
  show ?case
    using Cons.IH[OF reachable.line[OF Cons.prems], of ln]
    by (simp add: owner_in_parseLine[OF h])
qed

subsection \<open>Exclusion, line by line\<close>

lemma exclusive_simps [simp]:
  "exclusive (th\<lparr>stackTrace := a\<rparr>) = exclusive th"
  "exclusive (th\<lparr>status := b\<rparr>) = exclusive th"
  "exclusive (th\<lparr>classicalLocksHeld := c\<rparr>) = exclusive th"
  "exclusive new_Thread"
  by (simp_all add: exclusive_def new_Thread_def split: option.splits)

lemma exclusive_header:
  assumes "u < length (heapThreads s) \<Longrightarrow> exclusive (heapThreads s ! u)"
    "u < length (heapThreads (parseThreadHeader h s))"
  shows "exclusive (heapThreads (parseThreadHeader h s) ! u)"
  using assms by (auto simp: parseThreadHeader_def nth_append less_Suc_eq exclusive_def new_Thread_def)

lemma exclusive_wait_record:
  assumes "heap_ok s" "currentThread s = Some t" "exclusive (heapThreads s ! u)"
    "u < length (heapThreads s)"
  shows "exclusive (heapThreads (wait_record t i cn s) ! u) \<longleftrightarrow>
    \<not> (u = t \<and> fst (getOrCreateLock i cn s) \<in> set (locksHeld (heapThreads s ! t)))"
proof -
  obtain k s1 where g: "getOrCreateLock i cn s = (k, s1)" by (cases "getOrCreateLock i cn s")
  note v = getOrCreateLock_valid[OF assms(1) g]
  have t: "t < length (heapThreads s)" by (rule heap_ok_current[OF assms(1,2)])
  show ?thesis using assms(3) t
    by (auto simp: wait_record_def g v(2) nth_upd exclusive_def)
qed

lemma exclusive_held_record:
  assumes "heap_ok s" "currentThread s = Some t" "exclusive (heapThreads s ! u)"
    "u < length (heapThreads s)"
  shows "exclusive (heapThreads (held_record t i cn s) ! u) \<longleftrightarrow>
    \<not> (u = t \<and> lockWaitingFor (heapThreads s ! t) = Some (fst (getOrCreateLock i cn s)))"
proof -
  obtain k s1 where g: "getOrCreateLock i cn s = (k, s1)" by (cases "getOrCreateLock i cn s")
  note v = getOrCreateLock_valid[OF assms(1) g]
  have t: "t < length (heapThreads s)" by (rule heap_ok_current[OF assms(1,2)])
  show ?thesis using assms(3) t
    by (auto simp: held_record_def g v(2) nth_upd exclusive_def split: option.splits)
qed

lemma exclusive_locked_record:
  assumes "heap_ok s" "currentThread s = Some t" "exclusive (heapThreads s ! u)"
  shows "exclusive (heapThreads (locked_record t i cn s) ! u)"
proof (cases "case lockWaitingFor (heapThreads s ! t) of
            Some w \<Rightarrow> lock_id (heapLocks s ! w) = i | None \<Rightarrow> False")
  case True
  then show ?thesis using assms(3) by (simp add: locked_record_def)
next
  case False
  obtain l s1 where g: "getOrCreateLock i cn s = (l, s1)" by (cases "getOrCreateLock i cn s")
  note res = getOrCreateLock_result[OF g heap_ok_locks_ok[OF assms(1)]]
    and fr = getOrCreateLock_frame[OF g]
  have t: "t < length (heapThreads s)" by (rule heap_ok_current[OF assms(1,2)])
  have neq: "w \<noteq> l" if "lockWaitingFor (heapThreads s ! t) = Some w" for w
  proof
    assume "w = l"
    have "w < length (heapLocks s)"
      using heap_ok_thread[OF assms(1) t] that by (simp add: thread_ok_def)
    then have "heapLocks s1 ! w = heapLocks s ! w"
      using fr(5) by (auto simp: prefix_def nth_append)
    then show False using False that res(4) \<open>w = l\<close> by simp
  qed
  show ?thesis
  proof (cases "u = t")
    case True
    then show ?thesis using assms(3) False neq t
      by (auto simp: locked_record_def g fr(1) exclusive_def split: option.splits)
  next
    case False
    then show ?thesis using assms(3) \<open>\<not> (case lockWaitingFor (heapThreads s ! t) of
            Some w \<Rightarrow> lock_id (heapLocks s ! w) = i | None \<Rightarrow> False)\<close>
      by (simp add: locked_record_def g fr(1) nth_upd)
  qed
qed

lemma length_threads_record:
  "length (heapThreads (wait_record t i cn s)) = length (heapThreads s)"
  "length (heapThreads (held_record t i cn s)) = length (heapThreads s)"
  "length (heapThreads (locked_record t i cn s)) = length (heapThreads s)"
proof -
  obtain k s1 where g: "getOrCreateLock i cn s = (k, s1)" by (cases "getOrCreateLock i cn s")
  note fr = getOrCreateLock_frame[OF g]
  show "length (heapThreads (wait_record t i cn s)) = length (heapThreads s)"
    "length (heapThreads (held_record t i cn s)) = length (heapThreads s)"
    "length (heapThreads (locked_record t i cn s)) = length (heapThreads s)"
    by (simp_all add: wait_record_def held_record_def locked_record_def g fr(1))
qed

lemma exclusive_parseLine:
  assumes "heap_ok s" "u < length (heapThreads s) \<Longrightarrow> exclusive (heapThreads s ! u)"
    "u < length (heapThreads (parseLine ln s))"
  shows "exclusive (heapThreads (parseLine ln s) ! u) \<longleftrightarrow>
    \<not> (currentThread s = Some u \<and> breaks_exclusion ln s)"
proof (cases "classify ln")
  case ThreadHeader
  then show ?thesis using assms(2,3) exclusive_header[of u s ln]
    by (simp add: parseLine_classify apply_record_def breaks_exclusion_def split: option.splits)
next
  case (StackFrame f)
  then show ?thesis using assms(2,3)
    by (auto simp: parseLine_classify apply_record_def breaks_exclusion_def nth_upd
        split: option.splits)
next
  case (ThreadState x)
  then show ?thesis using assms(2,3)
    by (auto simp: parseLine_classify apply_record_def breaks_exclusion_def nth_upd
        split: option.splits)
next
  case (WaitRecord i cn)
  then show ?thesis using assms(2,3) exclusive_wait_record[OF assms(1), of _ u i cn]
    by (auto simp: parseLine_classify apply_record_def breaks_exclusion_def length_threads_record
        split: option.splits)
next
  case (LockedRecord i cn)
  then show ?thesis using assms(2,3) exclusive_locked_record[OF assms(1), of _ u i cn]
    by (auto simp: parseLine_classify apply_record_def breaks_exclusion_def length_threads_record
        split: option.splits)
next
  case OtherSync
  then show ?thesis using assms(2,3)
    by (simp add: parseLine_classify apply_record_def breaks_exclusion_def split: option.splits)
next
  case (HeldLock i cn)
  then show ?thesis using assms(2,3) exclusive_held_record[OF assms(1), of _ u i cn]
    by (auto simp: parseLine_classify apply_record_def breaks_exclusion_def length_threads_record
        split: option.splits)
next
  case Ignored
  then show ?thesis using assms(2,3)
    by (simp add: parseLine_classify apply_record_def breaks_exclusion_def split: option.splits)
qed

lemma length_threads_parseLine: "length (heapThreads s) \<le> length (heapThreads (parseLine ln s))"
  by (cases "classify ln")
    (auto simp: parseLine_classify apply_record_def length_threads_record parseThreadHeader_def
      split: option.splits)

lemma all_exclusive_parseLine:
  assumes "heap_ok s" "all_exclusive s" "\<not> breaks_exclusion ln s"
  shows "all_exclusive (parseLine ln s)"
  unfolding all_exclusive_def
proof (intro allI impI)
  fix u assume u: "u < length (heapThreads (parseLine ln s))"
  have "u < length (heapThreads s) \<Longrightarrow> exclusive (heapThreads s ! u)"
    using assms(2) by (simp add: all_exclusive_def)
  from exclusive_parseLine[OF assms(1) this u] assms(3)
  show "exclusive (heapThreads (parseLine ln s) ! u)" by simp
qed

lemma all_exclusive_fold:
  assumes "reachable s" "all_exclusive s" "lines_keep_exclusion lns s"
  shows "all_exclusive (fold parseLine lns s)"
  using assms
proof (induction lns arbitrary: s)
  case Nil
  then show ?case by simp
next
  case (Cons ln lns)
  have h: "heap_ok s" using reachable_consistent[OF Cons.prems(1)] by simp
  show ?case
    using Cons.IH[OF reachable.line[OF Cons.prems(1)], of ln] Cons.prems(2,3)
      all_exclusive_parseLine[OF h]
    by simp
qed

subsection \<open>The threads of a dump and the removal of one element\<close>

lemma threads_parseLine:
  "threads (parseLine ln s) = threads s \<or>
   threads (parseLine ln s) = threads s @ [length (heapThreads s)]"
proof -
  have r: "threads (wait_record t i cn s) = threads s"
    "threads (held_record t i cn s) = threads s"
    "threads (locked_record t i cn s) = threads s" for t i cn
    using getOrCreateLock_frame(3)[of i cn s]
    by (cases "getOrCreateLock i cn s";
        simp add: wait_record_def held_record_def locked_record_def)+
  show ?thesis
    by (cases "classify ln")
      (auto simp: parseLine_classify apply_record_def parseThreadHeader_def r split: option.splits)
qed

lemma reachable_distinct: "reachable s \<Longrightarrow> distinct (threads s)"
proof (induction rule: reachable.induct)
  case fresh
  show ?case by (simp add: fresh_process_def)
next
  case (new_dump s)
  show ?case by simp
next
  case (line s ln)
  have "\<forall>t \<in> set (threads s). t < length (heapThreads s)"
    using reachable_consistent[OF line.hyps] by (simp add: heap_ok_def)
  then show ?case using line.IH threads_parseLine[of ln s] by auto
next
  case (resolve s t s')
  then show ?case by (simp add: resolve_thread_threads)
qed

lemma splice1_nat: "splice1 (int k) xs = take k xs @ drop (Suc k) xs"
  by (cases "k \<le> length xs") (simp_all add: splice1_def Let_def min_def)

lemma take_drop_first:
  assumes "x \<in> set xs"
  shows "take (length (takeWhile (\<lambda>y. y \<noteq> x) xs)) xs @
         drop (Suc (length (takeWhile (\<lambda>y. y \<noteq> x) xs))) xs = remove1 x xs"
  using assms by (induction xs) auto

lemma splice1_indexOf:
  assumes "x \<in> set xs"
  shows "splice1 (indexOf xs x) xs = remove1 x xs"
  using assms by (simp add: indexOf_def splice1_nat take_drop_first)

lemma count_list_pos: "0 < count_list xs x \<longleftrightarrow> x \<in> set xs"
  by (induction xs) auto

lemma in_remove1_count: "x \<in> set (remove1 x xs) \<longleftrightarrow> 1 < count_list xs x"
  by (induction xs) (auto simp: count_list_pos)

lemma in_splice1_count:
  "x \<in> set (splice1 (indexOf xs x) xs) \<longleftrightarrow> 1 < count_list xs x"
proof (cases "x \<in> set xs")
  case True
  then show ?thesis by (simp add: splice1_indexOf in_remove1_count)
next
  case False
  then have "count_list xs x = 0" by (simp add: count_list_0_iff)
  moreover have "x \<notin> set (splice1 (indexOf xs x) xs)"
    using False set_splice1 by fastforce
  ultimately show ?thesis by simp
qed

subsection \<open>The resolver\<close>

lemma resolve_thread_effect:
  assumes "heap_ok s" "t < length (heapThreads s)" "resolve_thread t s = Inr s'"
  obtains lock rest where
    "classicalLocksHeld (heapThreads s ! t) = lock # rest"
    "lock < length (heapLocks s)"
    "heapLocks s' = (heapLocks s)[lock := (heapLocks s ! lock)\<lparr>owner := None,
        waiting := waiting (heapLocks s ! lock) @ [t]\<rparr>]"
    "heapThreads s' = (heapThreads s)[t := (heapThreads s ! t)\<lparr>lockWaitingFor := Some lock,
        locksHeld := splice1 (indexOf (locksHeld (heapThreads s ! t)) lock)
                       (locksHeld (heapThreads s ! t)),
        classicalLocksHeld := splice1 (indexOf (classicalLocksHeld (heapThreads s ! t)) lock)
                       (classicalLocksHeld (heapThreads s ! t))\<rparr>]"
proof -
  obtain lock rest where c: "classicalLocksHeld (heapThreads s ! t) = lock # rest"
    using assms(3) by (cases "classicalLocksHeld (heapThreads s ! t)") (auto simp: resolve_thread_def)
  have l: "lock < length (heapLocks s)"
    using heap_ok_thread[OF assms(1,2)] c by (simp add: thread_ok_def)
  have s': "s' = upd_thread t
                 (\<lambda>th. th\<lparr>classicalLocksHeld :=
                    splice1 (indexOf (classicalLocksHeld th) lock) (classicalLocksHeld th)\<rparr>)
              (upd_thread t
                 (\<lambda>th. th\<lparr>locksHeld := splice1 (indexOf (locksHeld th) lock) (locksHeld th)\<rparr>)
              (upd_thread t (\<lambda>th. th\<lparr>lockWaitingFor := Some lock\<rparr>)
              (upd_lock lock (\<lambda>l. l\<lparr>waiting := waiting l @ [t]\<rparr>)
              (upd_lock lock (\<lambda>l. l\<lparr>owner := None\<rparr>) s))))"
    using assms(3) c by (simp add: resolve_thread_def)
  show ?thesis
    by (rule that[OF c l]) (simp_all add: s' l assms(2))
qed

lemma resolve_thread_exclusive:
  assumes "heap_ok s" "t < length (heapThreads s)" "resolve_thread t s = Inr s'"
    "all_exclusive s" "\<not> holds_twice (heapThreads s ! t)"
  shows "all_exclusive s'"
proof -
  from assms(1-3) obtain lock rest where e:
    "classicalLocksHeld (heapThreads s ! t) = lock # rest"
    "heapThreads s' = (heapThreads s)[t := (heapThreads s ! t)\<lparr>lockWaitingFor := Some lock,
        locksHeld := splice1 (indexOf (locksHeld (heapThreads s ! t)) lock)
                       (locksHeld (heapThreads s ! t)),
        classicalLocksHeld := splice1 (indexOf (classicalLocksHeld (heapThreads s ! t)) lock)
                       (classicalLocksHeld (heapThreads s ! t))\<rparr>]"
    by (rule resolve_thread_effect)
  have "lock \<notin> set (splice1 (indexOf (locksHeld (heapThreads s ! t)) lock)
                       (locksHeld (heapThreads s ! t)))"
    using assms(5) e(1) by (simp add: holds_twice_def in_splice1_count)
  then show ?thesis using assms(4)
    by (auto simp: all_exclusive_def e(2) nth_upd exclusive_def)
qed

lemma resolve_thread_others:
  assumes "heap_ok s" "t < length (heapThreads s)" "resolve_thread t s = Inr s'" "u \<noteq> t"
  shows "heapThreads s' ! u = heapThreads s ! u"
    "length (heapThreads s') = length (heapThreads s)"
proof -
  from assms(1-3) obtain lock rest where e:
    "heapThreads s' = (heapThreads s)[t := (heapThreads s ! t)\<lparr>lockWaitingFor := Some lock,
        locksHeld := splice1 (indexOf (locksHeld (heapThreads s ! t)) lock)
                       (locksHeld (heapThreads s ! t)),
        classicalLocksHeld := splice1 (indexOf (classicalLocksHeld (heapThreads s ! t)) lock)
                       (classicalLocksHeld (heapThreads s ! t))\<rparr>]"
    by (rule resolve_thread_effect)
  show "heapThreads s' ! u = heapThreads s ! u" "length (heapThreads s') = length (heapThreads s)"
    using assms(4) by (simp_all add: e nth_upd)
qed

lemma forEach_resolve_exclusive:
  assumes "heap_ok s" "distinct ts" "\<forall>t \<in> set ts. t < length (heapThreads s)"
    "all_exclusive s" "\<forall>t \<in> set ts. \<not> holds_twice (heapThreads s ! t)"
    "forEach_resolve ts s = Inr s'"
  shows "all_exclusive s'"
  using assms
proof (induction ts arbitrary: s)
  case Nil
  then show ?case by simp
next
  case (Cons t ts)
  then obtain s1 where r: "resolve_thread t s = Inr s1" and f: "forEach_resolve ts s1 = Inr s'"
    by (auto split: sum.splits)
  have t: "t < length (heapThreads s)" using Cons.prems(3) by simp
  have h1: "heap_ok s1" by (rule heap_ok_resolve_thread[OF Cons.prems(1) t r])
  have e1: "all_exclusive s1"
    using resolve_thread_exclusive[OF Cons.prems(1) t r Cons.prems(4)] Cons.prems(5) by simp
  have o: "heapThreads s1 ! u = heapThreads s ! u" if "u \<in> set ts" for u
    using resolve_thread_others(1)[OF Cons.prems(1) t r, of u] that Cons.prems(2) by auto
  have len: "length (heapThreads s1) = length (heapThreads s)"
    using resolve_thread_others(2)[OF Cons.prems(1) t r, of "Suc t"] by simp
  show ?case
    using Cons.IH[OF h1 _ _ e1 _ f] Cons.prems(2,3,5) o len by simp
qed

lemma identify_filter:
  "identifyAnonymousSynchronizers s =
     forEach_resolve (filter (\<lambda>t. anonymous_waiter (heapThreads s ! t)) (threads s)) s"
proof -
  have "filter (\<lambda>t. case status (heapThreads s ! t) of
                      Some (Member st) \<Rightarrow> st \<in> set validStatuses | _ \<Rightarrow> False)
          (filter (\<lambda>t. lockWaitingFor (heapThreads s ! t) = None) (threads s)) =
        filter (\<lambda>t. anonymous_waiter (heapThreads s ! t)) (threads s)"
    by (auto simp: anonymous_waiter_def intro!: filter_cong)
  then show ?thesis by (simp add: identifyAnonymousSynchronizers_def)
qed

lemma owner_in_resolve_thread:
  assumes "heap_ok s" "t < length (heapThreads s)" "resolve_thread t s = Inr s'"
  shows "owner_in s' l =
    (if l \<in> set (take 1 (classicalLocksHeld (heapThreads s ! t))) then None else owner_in s l)"
proof -
  from assms obtain lock rest where e:
    "classicalLocksHeld (heapThreads s ! t) = lock # rest"
    "lock < length (heapLocks s)"
    "heapLocks s' = (heapLocks s)[lock := (heapLocks s ! lock)\<lparr>owner := None,
        waiting := waiting (heapLocks s ! lock) @ [t]\<rparr>]"
    by (rule resolve_thread_effect)
  show ?thesis by (simp add: owner_in_def e nth_upd)
qed

lemma owner_in_forEach:
  assumes "heap_ok s" "distinct ts" "\<forall>t \<in> set ts. t < length (heapThreads s)"
    "forEach_resolve ts s = Inr s'"
  shows "owner_in s' l =
    (if l \<in> set (concat (map (\<lambda>t. take 1 (classicalLocksHeld (heapThreads s ! t))) ts))
     then None else owner_in s l)"
  using assms
proof (induction ts arbitrary: s)
  case Nil
  then show ?case by simp
next
  case (Cons t ts)
  then obtain s1 where r: "resolve_thread t s = Inr s1" and f: "forEach_resolve ts s1 = Inr s'"
    by (auto split: sum.splits)
  have t: "t < length (heapThreads s)" using Cons.prems(3) by simp
  have h1: "heap_ok s1" by (rule heap_ok_resolve_thread[OF Cons.prems(1) t r])
  have o: "heapThreads s1 ! u = heapThreads s ! u" if "u \<in> set ts" for u
    using resolve_thread_others(1)[OF Cons.prems(1) t r, of u] that Cons.prems(2) by auto
  have len: "length (heapThreads s1) = length (heapThreads s)"
    using resolve_thread_others(2)[OF Cons.prems(1) t r, of "Suc t"] by simp
  have m: "map (\<lambda>t. take 1 (classicalLocksHeld (heapThreads s1 ! t))) ts =
           map (\<lambda>t. take 1 (classicalLocksHeld (heapThreads s ! t))) ts"
    using o by simp
  have "owner_in s' l =
    (if l \<in> set (concat (map (\<lambda>t. take 1 (classicalLocksHeld (heapThreads s1 ! t))) ts))
     then None else owner_in s1 l)"
    using Cons.IH[OF h1 _ _ f] Cons.prems(2,3) len by simp
  then show ?case
    unfolding m owner_in_resolve_thread[OF Cons.prems(1) t r] by simp
qed

lemma owner_in_identify:
  assumes "reachable s" "identifyAnonymousSynchronizers s = Inr s'"
  shows "owner_in s' l = (if l \<in> set (reattributed s) then None else owner_in s l)"
proof -
  have h: "heap_ok s" using reachable_consistent[OF assms(1)] by simp
  have d: "distinct (filter (\<lambda>t. anonymous_waiter (heapThreads s ! t)) (threads s))"
    using reachable_distinct[OF assms(1)] by simp
  have v: "\<forall>t \<in> set (filter (\<lambda>t. anonymous_waiter (heapThreads s ! t)) (threads s)).
             t < length (heapThreads s)"
    using h by (auto simp: heap_ok_def)
  show ?thesis
    using owner_in_forEach[OF h d v assms(2)[unfolded identify_filter]]
    by (simp add: reattributed_def)
qed

lemma all_exclusive_identify:
  assumes "reachable s" "identifyAnonymousSynchronizers s = Inr s'" "all_exclusive s"
    "\<forall>t \<in> set (threads s). anonymous_waiter (heapThreads s ! t) \<longrightarrow>
       \<not> holds_twice (heapThreads s ! t)"
  shows "all_exclusive s'"
proof -
  have h: "heap_ok s" using reachable_consistent[OF assms(1)] by simp
  have d: "distinct (filter (\<lambda>t. anonymous_waiter (heapThreads s ! t)) (threads s))"
    using reachable_distinct[OF assms(1)] by simp
  have v: "\<forall>t \<in> set (filter (\<lambda>t. anonymous_waiter (heapThreads s ! t)) (threads s)).
             t < length (heapThreads s)"
    using h by (auto simp: heap_ok_def)
  have n: "\<forall>t \<in> set (filter (\<lambda>t. anonymous_waiter (heapThreads s ! t)) (threads s)).
             \<not> holds_twice (heapThreads s ! t)"
    using assms(4) by simp
  show ?thesis
    by (rule forEach_resolve_exclusive[OF h d v assms(3) n assms(2)[unfolded identify_filter]])
qed

lemma resolve_thread_exclusive_iff:
  assumes "heap_ok s" "t < length (heapThreads s)" "resolve_thread t s = Inr s'"
    "all_exclusive s"
  shows "all_exclusive s' \<longleftrightarrow> \<not> holds_twice (heapThreads s ! t)"
proof
  assume a: "all_exclusive s'"
  from assms(1-3) obtain lock rest where e:
    "classicalLocksHeld (heapThreads s ! t) = lock # rest"
    "heapThreads s' = (heapThreads s)[t := (heapThreads s ! t)\<lparr>lockWaitingFor := Some lock,
        locksHeld := splice1 (indexOf (locksHeld (heapThreads s ! t)) lock)
                       (locksHeld (heapThreads s ! t)),
        classicalLocksHeld := splice1 (indexOf (classicalLocksHeld (heapThreads s ! t)) lock)
                       (classicalLocksHeld (heapThreads s ! t))\<rparr>]"
    by (rule resolve_thread_effect)
  have "t < length (heapThreads s')" using assms(2) by (simp add: e(2))
  then have "exclusive (heapThreads s' ! t)" using a unfolding all_exclusive_def by blast
  then show "\<not> holds_twice (heapThreads s ! t)"
    using assms(2) by (simp add: e holds_twice_def exclusive_def in_splice1_count)
next
  assume "\<not> holds_twice (heapThreads s ! t)"
  then show "all_exclusive s'" by (rule resolve_thread_exclusive[OF assms])
qed

lemma all_exclusive_parseLine_iff:
  assumes "heap_ok s" "all_exclusive s"
  shows "all_exclusive (parseLine ln s) \<longleftrightarrow> \<not> breaks_exclusion ln s"
proof
  assume a: "all_exclusive (parseLine ln s)"
  show "\<not> breaks_exclusion ln s"
  proof
    assume b: "breaks_exclusion ln s"
    then obtain t where c: "currentThread s = Some t"
      by (auto simp: breaks_exclusion_def split: option.splits)
    have t: "t < length (heapThreads s)" by (rule heap_ok_current[OF assms(1) c])
    have t': "t < length (heapThreads (parseLine ln s))"
      using t length_threads_parseLine[of s ln] by simp
    have "t < length (heapThreads s) \<Longrightarrow> exclusive (heapThreads s ! t)"
      using assms(2) by (simp add: all_exclusive_def)
    from exclusive_parseLine[OF assms(1) this t'] a t' b c show False
      by (simp add: all_exclusive_def)
  qed
next
  assume "\<not> breaks_exclusion ln s"
  then show "all_exclusive (parseLine ln s)" by (rule all_exclusive_parseLine[OF assms])
qed

lemma takes_ownership_effect:
  assumes "heap_ok s" "takes_ownership ln s = Some l"
  shows "\<exists>t. currentThread s = Some t \<and>
    locksHeld (heapThreads (parseLine ln s) ! t) = locksHeld (heapThreads s ! t) @ [l] \<and>
    (\<forall>u. u \<noteq> t \<longrightarrow> heapThreads (parseLine ln s) ! u = heapThreads s ! u)"
proof -
  obtain t where c: "currentThread s = Some t"
    using assms(2) by (auto simp: takes_ownership_def split: option.splits)
  show ?thesis
  proof (cases "classify ln")
    case (LockedRecord i cn)
    have n: "\<forall>w. lockWaitingFor (heapThreads s ! t) = Some w \<longrightarrow> lock_id (heapLocks s ! w) \<noteq> i"
      and g: "getOrCreateLock i cn s = (l, snd (getOrCreateLock i cn s))"
      using assms(2) c LockedRecord
      by (auto simp: takes_ownership_def split: option.splits if_splits)
    show ?thesis using locked_record_effect[OF assms(1) c g n] c LockedRecord
      by (simp add: parseLine_classify apply_record_def)
  next
    case (HeldLock i cn)
    have g: "getOrCreateLock i cn s = (l, snd (getOrCreateLock i cn s))"
      using assms(2) c HeldLock
      by (auto simp: takes_ownership_def split: option.splits if_splits)
    show ?thesis using held_record_effect[OF assms(1) c g] c HeldLock
      by (simp add: parseLine_classify apply_record_def)
  qed (use assms(2) c in \<open>simp_all add: takes_ownership_def\<close>)
qed

lemma all_exclusive_dump:
  assumes "heap_ok s" "all_exclusive s"
  shows "\<forall>u \<in> set (threads s). exclusive (heapThreads s ! u)"
  using assms by (auto simp: heap_ok_def all_exclusive_def)

subsection \<open>Status classification\<close>

text \<open>
  For a token that names no property of \<open>Object.prototype\<close> and is not the text of a
  number, \<open>stringToThreadStatus\<close> is the classification of section 4.4, and
  \<open>TIMED_WAITING\<close> is classified by the exact match: no prefix rule matches it.
\<close>

lemma stringToThreadStatus_rules:
  assumes "token \<notin> set Object_prototype_keys" and "\<not> isNumeral token"
  shows "stringToThreadStatus token = Member (classify_by_rules token)"
  using assms
  unfolding stringToThreadStatus_def classify_by_rules_def ThreadStatus_get_def
    ThreadStatus_member_def member_names_def prefix_rules_def
  by simp

lemma stringToThreadStatus_TIMED_WAITING:
  "map_of member_names ''TIMED_WAITING'' = Some TIMED_WAITING"
  "stringToThreadStatus ''TIMED_WAITING'' = Member TIMED_WAITING"
  "find (\<lambda>rule. prefix (fst rule) ''TIMED_WAITING'') prefix_rules = None"
  by (simp_all add: member_names_def prefix_rules_def stringToThreadStatus_def
      ThreadStatus_get_def ThreadStatus_member_def)

subsection \<open>Evaluation on concrete documents\<close>

lemmas char_defs = isSpace_def isLineTerminator_def isDigit_def isLockIdChar_def isNidChar_def

lemmas pattern_defs = NAME_PATTERN_def FRAME_PATTERN_def THREAD_STATE_PATTERN_def
  SYNCHRONIZATION_STATUS_PATTERN_def HELD_LOCK_PATTERN_def lock_reference_def
  spaces_lock_reference_def matchOne_def matchMultipleGroups_def

lemmas parser_defs = parseLine_def parseThreadHeader_def parseStackLine_def sync_record_def
  wait_record_def locked_record_def held_record_def getOrCreateLock_def upd_thread_def upd_lock_def
  new_Thread_def new_Lock_def stringToThreadStatus_def ThreadStatus_get_def ThreadStatus_member_def
  Object_prototype_keys_def isNumeral_def trim_def
  parseInt10_def digitValue_def

lemmas resolver_defs = parseThreadDump_def identifyAnonymousSynchronizers_def resolve_thread_def
  validStatuses_def indexOf_def splice1_def fresh_process_def

lemmas doc_defs = header_T_def doc_waiting_no_lock_def doc_two_waits_def state_two_waits_def
  doc_locked_then_wait_def state_locked_then_wait_def doc_scenario_def doc_preamble_def
  state_first_parse_def state_second_parse_def doc_waiting_locked_def state_lines_consumed_def
  state_resolved_def doc_constructor_def state_constructor_def line_nested_def lines_waiting_def lines_two_threads_def

lemmas doc2_defs = header_U_def doc_wait_then_held_def state_wait_then_held_def
  doc_locked_twice_def state_locked_twice_lines_def state_locked_twice_def
  doc_locked_by_waiter_def state_locked_by_waiter_def doc_two_owners_def state_two_owners_def

lemmas pred_defs = classify_def takes_ownership_def owner_in_def breaks_exclusion_def
  anonymous_waiter_def holds_twice_def all_exclusive_def exclusive_def reattributed_def

lemmas eval_defs = char_defs pattern_defs parser_defs resolver_defs doc_defs

section \<open>The claims\<close>

subsection \<open>C1: the resolver on a thread without a classical lock\<close>

text \<open>
  C1 says that parsing never throws, and that the resolver silently skips a thread whose
  status is BLOCKED, WAITING or TIMED_WAITING, that has no wait-target and holds no
  classical lock. The resolver has no such guard: \<open>thread.classicalLocksHeld[0]\<close> is
  \<open>undefined\<close> and the assignment \<open>lock.owner = null\<close> throws. On the document
  \<open>"T" nid=1\<close>, \<open>java.lang.Thread.State: WAITING (on object monitor)\<close> the call ends with
  a \<open>TypeError\<close> and no dump is handed to the callback.
\<close>

theorem parseThreadDump_throws:
  "parseThreadDump doc_waiting_no_lock fresh_process = Inl TypeError"
  by (simp add: eval_defs)

subsection \<open>C2: waiting sets and wait-targets\<close>




subsection \<open>C3: held locks and the wait-target\<close>

text \<open>
  C3 says that the lock a thread waits on is never in the thread's held set, also when
  the \<open>locked\<close> record comes before the wait record. Three documents, each parsed in a
  fresh process, end with lock 0 both held by thread 0 and its wait-target:
  \<open>locked <0x1>\<close> followed by \<open>waiting on <0x1>\<close> (the wait case does not look at the held
  locks); \<open>waiting on <0x1>\<close> followed by the held-lock record \<open>- <0x1> (a A)\<close> (the
  held-lock branch does not look at the wait-target); and a \<open>WAITING\<close> thread with two
  records \<open>locked <0x1>\<close>, where exclusion holds after the last line and the resolver
  makes lock 0 the wait-target and removes one of its two occurrences from the held locks.
\<close>

theorem exclusion_broken:
  "parseThreadDump doc_locked_then_wait fresh_process = Inr state_locked_then_wait \<and>
   lockWaitingFor (heapThreads state_locked_then_wait ! 0) = Some 0 \<and>
   0 \<in> set (locksHeld (heapThreads state_locked_then_wait ! 0)) \<and>
   parseThreadDump doc_wait_then_held fresh_process = Inr state_wait_then_held \<and>
   lockWaitingFor (heapThreads state_wait_then_held ! 0) = Some 0 \<and>
   0 \<in> set (locksHeld (heapThreads state_wait_then_held ! 0)) \<and>
   fold parseLine (split_lines doc_locked_twice) fresh_process = state_locked_twice_lines \<and>
   all_exclusive state_locked_twice_lines \<and>
   parseThreadDump doc_locked_twice fresh_process = Inr state_locked_twice \<and>
   lockWaitingFor (heapThreads state_locked_twice ! 0) = Some 0 \<and>
   0 \<in> set (locksHeld (heapThreads state_locked_twice ! 0))"
  by (simp add: eval_defs doc2_defs all_exclusive_def exclusive_def)

text \<open>
  C3 as amended. Let exclusion hold for every thread of a state the process has reached.
  After one more line it holds for every thread if and only if the line does not break
  exclusion: it is not a wait record that names a lock the current thread holds, and not
  a held-lock record that names the current thread's wait-target. After the resolver has
  re-attributed a thread it holds for every thread if and only if the first classical
  lock of that thread occurs at most once among the locks it holds. For a dump parsed
  from such a state: if no line breaks exclusion when it is consumed, exclusion holds for
  every thread when all lines are consumed; if moreover no anonymous waiter of the dump
  holds its first classical lock more than once and parsing returns, exclusion holds for
  every thread in the result, among them the threads of the dump.
\<close>

theorem exclusion_kept:
  assumes "reachable p" and "all_exclusive p"
  shows "(all_exclusive (parseLine ln p) \<longleftrightarrow> \<not> breaks_exclusion ln p) \<and>
    (t < length (heapThreads p) \<longrightarrow> resolve_thread t p = Inr p' \<longrightarrow>
       (all_exclusive p' \<longleftrightarrow> \<not> holds_twice (heapThreads p ! t))) \<and>
    (lines_keep_exclusion (split_lines text) (p\<lparr>threads := [], locks := []\<rparr>) \<longrightarrow>
       all_exclusive (fold parseLine (split_lines text) (p\<lparr>threads := [], locks := []\<rparr>)) \<and>
       ((\<forall>u \<in> set (threads (fold parseLine (split_lines text) (p\<lparr>threads := [], locks := []\<rparr>))).
           anonymous_waiter
             (heapThreads (fold parseLine (split_lines text) (p\<lparr>threads := [], locks := []\<rparr>)) ! u) \<longrightarrow>
           \<not> holds_twice
             (heapThreads (fold parseLine (split_lines text) (p\<lparr>threads := [], locks := []\<rparr>)) ! u)) \<longrightarrow>
        parseThreadDump text p = Inr s' \<longrightarrow>
        all_exclusive s' \<and> (\<forall>u \<in> set (threads s'). exclusive (heapThreads s' ! u))))"
proof (intro conjI impI)
  have h: "heap_ok p" using reachable_consistent[OF assms(1)] by simp
  show "all_exclusive (parseLine ln p) \<longleftrightarrow> \<not> breaks_exclusion ln p"
    by (rule all_exclusive_parseLine_iff[OF h assms(2)])
  show "all_exclusive p' \<longleftrightarrow> \<not> holds_twice (heapThreads p ! t)"
    if "t < length (heapThreads p)" "resolve_thread t p = Inr p'"
    by (rule resolve_thread_exclusive_iff[OF h that assms(2)])
next
  let ?s0 = "p\<lparr>threads := [], locks := []\<rparr>"
  let ?sN = "fold parseLine (split_lines text) ?s0"
  assume k: "lines_keep_exclusion (split_lines text) ?s0"
  have r0: "reachable ?s0" by (rule reachable.new_dump[OF assms(1)])
  have e0: "all_exclusive ?s0" using assms(2) by (simp add: all_exclusive_def)
  show eN: "all_exclusive ?sN" by (rule all_exclusive_fold[OF r0 e0 k])
  assume n: "\<forall>u \<in> set (threads ?sN). anonymous_waiter (heapThreads ?sN ! u) \<longrightarrow>
      \<not> holds_twice (heapThreads ?sN ! u)"
    and q: "parseThreadDump text p = Inr s'"
  have rN: "reachable ?sN" by (rule reachable_fold[OF r0])
  have i: "identifyAnonymousSynchronizers ?sN = Inr s'" using q by (simp add: parseThreadDump_def)
  show e': "all_exclusive s'" by (rule all_exclusive_identify[OF rN i eN n])
  have "heap_ok s'" using reachable_consistent[OF reachable_parseThreadDump[OF assms(1) q]] by simp
  then show "\<forall>u \<in> set (threads s'). exclusive (heapThreads s' ! u)"
    using e' by (rule all_exclusive_dump)
qed

theorem exclusion_kept_witness:
  "reachable fresh_process \<and> all_exclusive fresh_process \<and>
   lines_keep_exclusion (split_lines doc_waiting_locked) (fresh_process\<lparr>threads := [], locks := []\<rparr>) \<and>
   fold parseLine (split_lines doc_waiting_locked) (fresh_process\<lparr>threads := [], locks := []\<rparr>) =
     state_lines_consumed \<and>
   reachable state_lines_consumed \<and> all_exclusive state_lines_consumed \<and>
   threads state_lines_consumed = [0] \<and>
   anonymous_waiter (heapThreads state_lines_consumed ! 0) \<and>
   \<not> holds_twice (heapThreads state_lines_consumed ! 0) \<and>
   resolve_thread 0 state_lines_consumed = Inr state_resolved \<and>
   parseThreadDump doc_waiting_locked fresh_process = Inr state_resolved \<and>
   all_exclusive state_resolved \<and>
   exclusive (heapThreads state_resolved ! 0) \<and>
   lockWaitingFor (heapThreads state_resolved ! 0) = Some 0 \<and>
   locksHeld (heapThreads state_resolved ! 0) = []"
proof -
  have r: "reachable fresh_process" by (rule reachable.fresh)
  have a: "all_exclusive fresh_process" by (simp add: all_exclusive_def fresh_process_def)
  have f: "fold parseLine (split_lines doc_waiting_locked) (fresh_process\<lparr>threads := [], locks := []\<rparr>) =
     state_lines_consumed"
    by (simp add: eval_defs)
  have k: "lines_keep_exclusion (split_lines doc_waiting_locked)
      (fresh_process\<lparr>threads := [], locks := []\<rparr>)"
    by (simp add: eval_defs pred_defs)
  have r2: "reachable state_lines_consumed"
    using reachable_fold[OF reachable.new_dump[OF r], of "split_lines doc_waiting_locked"]
    by (simp only: f)
  have w: "anonymous_waiter (heapThreads state_lines_consumed ! 0)"
    "\<not> holds_twice (heapThreads state_lines_consumed ! 0)"
    "threads state_lines_consumed = [0]" "0 < length (heapThreads state_lines_consumed)"
    by (simp_all add: state_lines_consumed_def anonymous_waiter_def holds_twice_def validStatuses_def)
  have q: "parseThreadDump doc_waiting_locked fresh_process = Inr state_resolved"
    by (simp add: eval_defs)
  have v: "resolve_thread 0 state_lines_consumed = Inr state_resolved"
    by (simp add: eval_defs)
  have x: "lockWaitingFor (heapThreads state_resolved ! 0) = Some 0"
    "locksHeld (heapThreads state_resolved ! 0) = []" "threads state_resolved = [0]"
    by (simp_all add: state_resolved_def)
  note parse = exclusion_kept[OF r a, of _ _ _ doc_waiting_locked state_resolved]
  have a2: "all_exclusive state_lines_consumed" using parse k by (simp add: f)
  note step = exclusion_kept[OF r2 a2, of _ 0 state_resolved]
  have e: "all_exclusive state_resolved" using step w v by simp
  show ?thesis using parse r a k f r2 a2 w q v x e by simp
qed

subsection \<open>C4: the scenario of one runnable thread\<close>

text \<open>
  C4 says that the three lines \<open>"Thread-1" nid=0x1\<close>, \<open>java.lang.Thread.State: RUNNABLE\<close>,
  \<open>at com.example.Foo.bar(Foo.java:10)\<close> give one thread named \<open>Thread-1\<close> with id 1, status
  RUNNABLE, that one stack frame, and no lock. The parser reads the id with
  \<open>parseInt(..., 10)\<close>, which stops at the \<open>x\<close> of \<open>0x1\<close>: the id is 0. The rest is as
  claimed.
\<close>

theorem parseThreadDump_scenario:
  "parseThreadDump doc_scenario fresh_process =
   Inr \<lparr>heapThreads =
          [\<lparr>name = ''Thread-1'', thread_id = Num 0, status = Some (Member RUNNABLE),
            stackTrace = [''com.example.Foo.bar(Foo.java:10)''],
            locksHeld = [], classicalLocksHeld = [], lockWaitingFor = None\<rparr>],
        heapLocks = [], currentThread = Some 0, threads = [0], locks = []\<rparr>"
  by (simp add: eval_defs)

subsection \<open>C5: the lock registry\<close>

text \<open>
  C5: \<open>getOrCreateLock\<close> returns the first lock of the dump's lock list with the given id.
  When the list has no lock of that id, the lock is new: it is appended to the list with
  the given id and class name, no owner and nobody waiting, and nothing else changes.
  When the list has one, the state is unchanged. Let \<open>s2\<close> be the state after the record
  that made the call (a wait record, a held-lock record, or a \<open>locked\<close> record that is not
  discarded): a second call with the same id, after any further lines of the same dump and
  with any class name, returns the same lock and changes nothing, and the lock has kept
  its class name.
\<close>

theorem getOrCreateLock_identity:
  assumes "reachable s" and "getOrCreateLock i cn s = (l, s1)"
    and "s2 = wait_record t i cn s \<or> s2 = held_record t i cn s \<or>
         (s2 = locked_record t i cn s \<and>
          (\<forall>w. lockWaitingFor (heapThreads s ! t) = Some w \<longrightarrow> lock_id (heapLocks s ! w) \<noteq> i))"
  shows "find (\<lambda>r. lock_id (heapLocks s1 ! r) = i) (locks s1) = Some l \<and>
    ((\<forall>r \<in> set (locks s). lock_id (heapLocks s ! r) \<noteq> i) \<longrightarrow>
       l = length (heapLocks s) \<and>
       s1 = s\<lparr>heapLocks := heapLocks s @
                 [\<lparr>lock_id = i, className = cn, owner = None, waiting = []\<rparr>],
               locks := locks s @ [l]\<rparr>) \<and>
    ((\<exists>r \<in> set (locks s). lock_id (heapLocks s ! r) = i) \<longrightarrow> s1 = s) \<and>
    getOrCreateLock i cn' (fold parseLine lns s2) = (l, fold parseLine lns s2) \<and>
    className (heapLocks (fold parseLine lns s2) ! l) = className (heapLocks s1 ! l)"
proof -
  have ok: "locks_ok s" using assms(1) reachable_consistent heap_ok_locks_ok by blast
  note res = getOrCreateLock_result[OF assms(2) ok]
  have created: "(\<forall>r \<in> set (locks s). lock_id (heapLocks s ! r) \<noteq> i) \<longrightarrow>
       l = length (heapLocks s) \<and>
       s1 = s\<lparr>heapLocks := heapLocks s @
                 [\<lparr>lock_id = i, className = cn, owner = None, waiting = []\<rparr>],
               locks := locks s @ [l]\<rparr>"
    using assms(2) by (auto simp: getOrCreateLock_created find_None_id)
  have found: "(\<exists>r \<in> set (locks s). lock_id (heapLocks s ! r) = i) \<longrightarrow> s1 = s"
  proof
    assume "\<exists>r \<in> set (locks s). lock_id (heapLocks s ! r) = i"
    then obtain a where "find (\<lambda>r. lock_id (heapLocks s ! r) = i) (locks s) = Some a"
      using find_None_id[of "heapLocks s" i "locks s"]
      by (cases "find (\<lambda>r. lock_id (heapLocks s ! r) = i) (locks s)") auto
    then show "s1 = s" using assms(2) by (simp add: getOrCreateLock_found)
  qed
  have "locks_extend s1 s2" using assms(3) locks_extend_records[OF assms(2)] by blast
  then have ext: "locks_extend s1 (fold parseLine lns s2)"
    by (rule locks_extend_trans[OF _ locks_extend_fold])
  have again: "getOrCreateLock i cn' (fold parseLine lns s2) = (l, fold parseLine lns s2)"
    by (rule getOrCreateLock_found[OF find_locks_extend[OF res(1) ext res(5)]])
  have "className (heapLocks (fold parseLine lns s2) ! l) = className (heapLocks s1 ! l)"
    using ext res(3) by (simp add: locks_extend_def)
  with res(5) created found again show ?thesis by blast
qed

theorem getOrCreateLock_identity_witness:
  "reachable (parseLine header_T fresh_process) \<and>
   getOrCreateLock ''0x1'' ''A'' (parseLine header_T fresh_process) =
     (0, (parseLine header_T fresh_process)
           \<lparr>heapLocks := [\<lparr>lock_id = ''0x1'', className = ''A'', owner = None, waiting = []\<rparr>],
            locks := [0]\<rparr>) \<and>
   getOrCreateLock ''0x1'' ''C''
     (fold parseLine [''   - <0x2> (a D)'']
        (locked_record 0 ''0x1'' ''A'' (parseLine header_T fresh_process))) =
     (0, fold parseLine [''   - <0x2> (a D)'']
        (locked_record 0 ''0x1'' ''A'' (parseLine header_T fresh_process))) \<and>
   className (heapLocks (fold parseLine [''   - <0x2> (a D)'']
        (locked_record 0 ''0x1'' ''A'' (parseLine header_T fresh_process))) ! 0) = ''A'' \<and>
   locks (fold parseLine [''   - <0x2> (a D)'']
        (locked_record 0 ''0x1'' ''A'' (parseLine header_T fresh_process))) = [0, 1]"
proof -
  have r: "reachable (parseLine header_T fresh_process)"
    by (rule reachable.line[OF reachable.fresh])
  have g: "getOrCreateLock ''0x1'' ''A'' (parseLine header_T fresh_process) =
     (0, (parseLine header_T fresh_process)
           \<lparr>heapLocks := [\<lparr>lock_id = ''0x1'', className = ''A'', owner = None, waiting = []\<rparr>],
            locks := [0]\<rparr>)"
    by (simp add: eval_defs)
  have n: "\<forall>w. lockWaitingFor (heapThreads (parseLine header_T fresh_process) ! 0) = Some w \<longrightarrow>
      lock_id (heapLocks (parseLine header_T fresh_process) ! w) \<noteq> ''0x1''"
    by (simp add: eval_defs)
  have k: "locks (fold parseLine [''   - <0x2> (a D)'']
        (locked_record 0 ''0x1'' ''A'' (parseLine header_T fresh_process))) = [0, 1]"
    by (simp add: eval_defs)
  show ?thesis
    using getOrCreateLock_identity[OF r g disjI2[OF disjI2[OF conjI[OF refl n]]],
        of "''C''" "[''   - <0x2> (a D)'']"] r g k
    by simp
qed

subsection \<open>C6: a \<open>locked\<close> record for the wait-target\<close>

text \<open>
  C6: a \<open>locked\<close> record whose lock id is the id of the current thread's wait-target
  changes nothing: the state after the line is the state before it, so no lock is
  created, no held list grows and the wait-target stays.
\<close>

theorem locked_record_discarded:
  assumes "currentThread s = Some t"
    and "lockWaitingFor (heapThreads s ! t) = Some w"
    and "lock_id (heapLocks s ! w) = lockId"
    and "SYNCHRONIZATION_STATUS_PATTERN line = Some [''locked'', lockId, cn]"
  shows "parseLine line s = s"
  using assms by (simp add: parseLine_sync sync_record_def locked_record_def)

theorem locked_record_discarded_witness:
  "currentThread (fold parseLine lines_waiting fresh_process) = Some 0 \<and>
   lockWaitingFor (heapThreads (fold parseLine lines_waiting fresh_process) ! 0) = Some 0 \<and>
   lock_id (heapLocks (fold parseLine lines_waiting fresh_process) ! 0) = ''0x1'' \<and>
   SYNCHRONIZATION_STATUS_PATTERN ''   - locked <0x1> (a A)'' = Some [''locked'', ''0x1'', ''A''] \<and>
   parseLine ''   - locked <0x1> (a A)'' (fold parseLine lines_waiting fresh_process) =
     fold parseLine lines_waiting fresh_process"
proof -
  have a: "currentThread (fold parseLine lines_waiting fresh_process) = Some 0"
    and b: "lockWaitingFor (heapThreads (fold parseLine lines_waiting fresh_process) ! 0) = Some 0"
    and c: "lock_id (heapLocks (fold parseLine lines_waiting fresh_process) ! 0) = ''0x1''"
    by (simp_all add: eval_defs lines_waiting_def)
  have d: "SYNCHRONIZATION_STATUS_PATTERN ''   - locked <0x1> (a A)'' = Some [''locked'', ''0x1'', ''A'']"
    by (simp add: eval_defs)
  show ?thesis using locked_record_discarded[OF a b c d] a b c d by simp
qed

subsection \<open>C7: status classification\<close>

text \<open>
  C7 says that a token is matched against the member names of the enumeration first, then
  against the prefixes \<open>BLOCKED\<close>, \<open>WAITING\<close>, \<open>TIME_WAITING\<close>, and that any other token
  maps to UNKNOWN. The exact match of the source is the lookup \<open>ThreadStatus[key]\<close>, which
  also finds what the object inherits. The token \<open>constructor\<close> is no member name and
  starts with none of the prefixes, so the rules give UNKNOWN; the lookup is defined
  for it, and its value, which is no member of the enumeration, is returned and becomes
  the status of the thread.
\<close>

theorem stringToThreadStatus_inherited:
  "ThreadStatus_member ''constructor'' = None \<and>
   classify_by_rules ''constructor'' = UNKNOWN \<and>
   stringToThreadStatus ''constructor'' = Inherited ''constructor'' \<and>
   parseThreadDump doc_constructor fresh_process = Inr state_constructor"
  by (simp add: eval_defs classify_by_rules_def member_names_def prefix_rules_def)

subsection \<open>C8: parsing the same text twice\<close>

text \<open>
  C8 says that two parses of the same text give equal dumps whatever was parsed before.
  The cursor \<open>currentThread\<close> is a module variable that \<open>parseThreadDump\<close> never resets, so
  the test \<open>if (!currentThread)\<close> holds only before the first header the process ever
  reads. The document \<open>doc_preamble\<close> has a wait record before its thread header. Parsed
  in a fresh process the record is ignored and the dump has no lock; parsed again, the
  record is applied to the thread of the first dump, and the second dump has the lock
  \<open>0x1\<close>, with a thread of the first dump in its waiting list.
\<close>

theorem parseThreadDump_twice_differs:
  "parseThreadDump doc_preamble fresh_process = Inr state_first_parse \<and>
   parseThreadDump doc_preamble state_first_parse = Inr state_second_parse \<and>
   locks state_first_parse = [] \<and>
   locks state_second_parse = [0] \<and>
   waiting (heapLocks state_second_parse ! 0) = [0] \<and>
   threads state_second_parse = [1]"
  by (simp add: eval_defs)

subsection \<open>C9: held-lock records\<close>

text \<open>
  C9 says that every line of the held-lock shape makes the current thread the owner of
  the named lock and appends the lock to the thread's held list. The parser tries
  \<open>SYNCHRONIZATION_STATUS_PATTERN\<close> first, and a line of the held-lock shape whose class
  text holds a second lock reference matches it, with a verb the \<open>switch\<close> does not know:
  the line changes nothing.
\<close>

theorem nested_held_line_ignored:
  "HELD_LOCK_PATTERN line_nested = Some [''0x1'', ''X <0x2> (a Y)''] \<and>
   SYNCHRONIZATION_STATUS_PATTERN line_nested = Some [''<0x1> (a X'', ''0x2'', ''Y)''] \<and>
   currentThread (parseLine header_T fresh_process) = Some 0 \<and>
   parseLine line_nested (parseLine header_T fresh_process) = parseLine header_T fresh_process \<and>
   locks (parseLine line_nested (parseLine header_T fresh_process)) = []"
  by (simp add: eval_defs)

text \<open>
  C9 as amended, for every line that matches \<open>HELD_LOCK_PATTERN\<close>, with a current thread.
  If the line does not match \<open>SYNCHRONIZATION_STATUS_PATTERN\<close>, the parser fetches or
  creates the named lock, makes the current thread its owner, and appends it to the
  thread's held list; the classical list is unchanged. If the line matches
  \<open>SYNCHRONIZATION_STATUS_PATTERN\<close> too, it changes nothing.
\<close>

theorem held_lock_record:
  assumes "reachable s" and "currentThread s = Some t"
    and "HELD_LOCK_PATTERN line = Some [lockId, cn]"
    and "getOrCreateLock lockId cn s = (l, s1)"
  shows "(SYNCHRONIZATION_STATUS_PATTERN line = None \<longrightarrow>
      locks (parseLine line s) = locks s1 \<and>
      find (\<lambda>r. lock_id (heapLocks (parseLine line s) ! r) = lockId) (locks (parseLine line s)) = Some l \<and>
      owner (heapLocks (parseLine line s) ! l) = Some t \<and>
      locksHeld (heapThreads (parseLine line s) ! t) = locksHeld (heapThreads s ! t) @ [l] \<and>
      classicalLocksHeld (heapThreads (parseLine line s) ! t) = classicalLocksHeld (heapThreads s ! t)) \<and>
    (SYNCHRONIZATION_STATUS_PATTERN line \<noteq> None \<longrightarrow> parseLine line s = s)"
proof (intro conjI impI)
  have h: "heap_ok s" using reachable_consistent[OF assms(1)] by simp
  assume n: "SYNCHRONIZATION_STATUS_PATTERN line = None"
  have p: "parseLine line s = held_record t lockId cn s"
    by (rule parseLine_held[OF assms(2) n assms(3)])
  show "locks (parseLine line s) = locks s1"
    "find (\<lambda>r. lock_id (heapLocks (parseLine line s) ! r) = lockId) (locks (parseLine line s)) = Some l"
    "owner (heapLocks (parseLine line s) ! l) = Some t"
    "locksHeld (heapThreads (parseLine line s) ! t) = locksHeld (heapThreads s ! t) @ [l]"
    "classicalLocksHeld (heapThreads (parseLine line s) ! t) = classicalLocksHeld (heapThreads s ! t)"
    unfolding p using held_record_effect[OF h assms(2,4)] by simp_all
next
  assume "SYNCHRONIZATION_STATUS_PATTERN line \<noteq> None"
  then obtain gs where "SYNCHRONIZATION_STATUS_PATTERN line = Some gs" by blast
  then show "parseLine line s = s" by (rule both_patterns_ignored(2)[OF assms(3)])
qed

theorem held_lock_record_witness:
  "reachable (parseLine header_T fresh_process) \<and>
   currentThread (parseLine header_T fresh_process) = Some 0 \<and>
   SYNCHRONIZATION_STATUS_PATTERN ''   - <0x1> (a A)'' = None \<and>
   HELD_LOCK_PATTERN ''   - <0x1> (a A)'' = Some [''0x1'', ''A''] \<and>
   parseLine ''   - <0x1> (a A)'' (parseLine header_T fresh_process) =
     \<lparr>heapThreads =
          [\<lparr>name = ''T'', thread_id = Num 1, status = None, stackTrace = [],
            locksHeld = [0], classicalLocksHeld = [], lockWaitingFor = None\<rparr>],
        heapLocks = [\<lparr>lock_id = ''0x1'', className = ''A'', owner = Some 0, waiting = []\<rparr>],
        currentThread = Some 0, threads = [0], locks = [0]\<rparr> \<and>
   HELD_LOCK_PATTERN line_nested = Some [''0x1'', ''X <0x2> (a Y)''] \<and>
   SYNCHRONIZATION_STATUS_PATTERN line_nested \<noteq> None \<and>
   parseLine line_nested (parseLine header_T fresh_process) = parseLine header_T fresh_process"
proof -
  have r: "reachable (parseLine header_T fresh_process)" by (rule reachable.line[OF reachable.fresh])
  have c: "currentThread (parseLine header_T fresh_process) = Some 0"
    by (simp add: eval_defs)
  have m: "SYNCHRONIZATION_STATUS_PATTERN ''   - <0x1> (a A)'' = None"
    "HELD_LOCK_PATTERN ''   - <0x1> (a A)'' = Some [''0x1'', ''A'']"
    by (simp_all add: eval_defs)
  have g: "getOrCreateLock ''0x1'' ''A'' (parseLine header_T fresh_process) =
    (0, snd (getOrCreateLock ''0x1'' ''A'' (parseLine header_T fresh_process)))"
    by (simp add: eval_defs)
  have e: "parseLine ''   - <0x1> (a A)'' (parseLine header_T fresh_process) =
     \<lparr>heapThreads =
          [\<lparr>name = ''T'', thread_id = Num 1, status = None, stackTrace = [],
            locksHeld = [0], classicalLocksHeld = [], lockWaitingFor = None\<rparr>],
        heapLocks = [\<lparr>lock_id = ''0x1'', className = ''A'', owner = Some 0, waiting = []\<rparr>],
        currentThread = Some 0, threads = [0], locks = [0]\<rparr>"
    by (simp add: eval_defs)
  have m2: "HELD_LOCK_PATTERN line_nested = Some [''0x1'', ''X <0x2> (a Y)'']"
    "SYNCHRONIZATION_STATUS_PATTERN line_nested \<noteq> None"
    by (simp_all add: eval_defs)
  have g2: "getOrCreateLock ''0x1'' ''X <0x2> (a Y)'' (parseLine header_T fresh_process) =
    (fst (getOrCreateLock ''0x1'' ''X <0x2> (a Y)'' (parseLine header_T fresh_process)),
     snd (getOrCreateLock ''0x1'' ''X <0x2> (a Y)'' (parseLine header_T fresh_process)))"
    by simp
  show ?thesis
    using held_lock_record[OF r c m(2) g] held_lock_record[OF r c m2(1) g2] r c m e m2 by simp
qed

subsection \<open>C10: ownership records and the owner after parsing\<close>

text \<open>
  C10 says that every \<open>locked\<close> and held-lock record overwrites the owner, so that after
  parsing the owner of a lock is the thread of the last ownership record for its id. In
  \<open>doc_waiting_locked\<close> the only ownership record for \<open>0x1\<close> is thread 0's; the owner is
  thread 0 after the last line, and the resolver clears it: no thread after parsing. In
  \<open>doc_locked_by_waiter\<close> the last \<open>locked\<close> record for \<open>0x1\<close> belongs to thread 1, which
  waits on \<open>0x1\<close>: the record is discarded and the owner after parsing is thread 0.
\<close>

theorem owner_not_last_record:
  "fold parseLine (split_lines doc_waiting_locked) fresh_process = state_lines_consumed \<and>
   owner (heapLocks state_lines_consumed ! 0) = Some 0 \<and>
   parseThreadDump doc_waiting_locked fresh_process = Inr state_resolved \<and>
   owner (heapLocks state_resolved ! 0) = None \<and>
   parseThreadDump doc_locked_by_waiter fresh_process = Inr state_locked_by_waiter \<and>
   currentThread state_locked_by_waiter = Some 1 \<and>
   owner (heapLocks state_locked_by_waiter ! 0) = Some 0"
  by (simp add: eval_defs doc2_defs)

text \<open>
  C10 as amended, for every state the process has reached and every lock. A line takes
  ownership of the lock when there is a current thread and the line is a held-lock
  record, or a \<open>locked\<close> record whose id is not the id of the current thread's
  wait-target, that names the lock. Such a line makes the current thread the owner
  whoever it was before, appends the lock to the current thread's held list and changes
  no other thread, so the lock stays in the held list of an earlier owner; every other
  line leaves the owner of the lock as it was. When all lines of a dump are consumed, the owner of the lock is the
  current thread of the last line that took ownership of it, and the owner before the
  dump if there is none. After parsing it is the same thread, unless the resolver has
  re-attributed the lock: then the lock has no owner.
\<close>

theorem owner_after_parsing:
  assumes "reachable p"
  shows "owner_in (parseLine ln p) l =
      (if takes_ownership ln p = Some l then currentThread p else owner_in p l) \<and>
    (takes_ownership ln p = Some l \<longrightarrow>
      (\<exists>t. currentThread p = Some t \<and>
         locksHeld (heapThreads (parseLine ln p) ! t) = locksHeld (heapThreads p ! t) @ [l] \<and>
         (\<forall>u. u \<noteq> t \<longrightarrow> heapThreads (parseLine ln p) ! u = heapThreads p ! u))) \<and>
    owner_in (fold parseLine (split_lines text) (p\<lparr>threads := [], locks := []\<rparr>)) l =
      last_owner (split_lines text) (p\<lparr>threads := [], locks := []\<rparr>) l (owner_in p l) \<and>
    (parseThreadDump text p = Inr s' \<longrightarrow>
      owner_in s' l =
        (if l \<in> set (reattributed (fold parseLine (split_lines text) (p\<lparr>threads := [], locks := []\<rparr>)))
         then None
         else last_owner (split_lines text) (p\<lparr>threads := [], locks := []\<rparr>) l (owner_in p l)))"
proof (intro conjI impI)
  let ?s0 = "p\<lparr>threads := [], locks := []\<rparr>"
  let ?sN = "fold parseLine (split_lines text) ?s0"
  have h: "heap_ok p" using reachable_consistent[OF assms] by simp
  have r0: "reachable ?s0" by (rule reachable.new_dump[OF assms])
  have o0: "owner_in ?s0 l = owner_in p l" by (simp add: owner_in_def)
  show "owner_in (parseLine ln p) l =
      (if takes_ownership ln p = Some l then currentThread p else owner_in p l)"
    by (rule owner_in_parseLine[OF h])
  show "\<exists>t. currentThread p = Some t \<and>
         locksHeld (heapThreads (parseLine ln p) ! t) = locksHeld (heapThreads p ! t) @ [l] \<and>
         (\<forall>u. u \<noteq> t \<longrightarrow> heapThreads (parseLine ln p) ! u = heapThreads p ! u)"
    if "takes_ownership ln p = Some l"
    by (rule takes_ownership_effect[OF h that])
  show f: "owner_in ?sN l = last_owner (split_lines text) ?s0 l (owner_in p l)"
    using owner_in_fold[OF r0, of "split_lines text" l] by (simp only: o0)
  assume q: "parseThreadDump text p = Inr s'"
  have i: "identifyAnonymousSynchronizers ?sN = Inr s'" using q by (simp add: parseThreadDump_def)
  show "owner_in s' l =
        (if l \<in> set (reattributed ?sN) then None
         else last_owner (split_lines text) ?s0 l (owner_in p l))"
    using owner_in_identify[OF reachable_fold[OF r0] i, of l] by (simp only: f)
qed

theorem owner_after_parsing_witness:
  "reachable (fold parseLine lines_two_threads fresh_process) \<and>
   currentThread (fold parseLine lines_two_threads fresh_process) = Some 1 \<and>
   owner_in (fold parseLine lines_two_threads fresh_process) 0 = Some 0 \<and>
   takes_ownership ''   - locked <0x1> (a A)'' (fold parseLine lines_two_threads fresh_process) = Some 0 \<and>
   owner_in (parseLine ''   - locked <0x1> (a A)'' (fold parseLine lines_two_threads fresh_process)) 0 =
     Some 1 \<and>
   locksHeld (heapThreads
     (parseLine ''   - locked <0x1> (a A)'' (fold parseLine lines_two_threads fresh_process)) ! 0) = [0] \<and>
   locksHeld (heapThreads
     (parseLine ''   - locked <0x1> (a A)'' (fold parseLine lines_two_threads fresh_process)) ! 1) = [0] \<and>
   reachable fresh_process \<and>
   parseThreadDump doc_two_owners fresh_process = Inr state_two_owners \<and>
   reattributed (fold parseLine (split_lines doc_two_owners) (fresh_process\<lparr>threads := [], locks := []\<rparr>)) = [] \<and>
   last_owner (split_lines doc_two_owners) (fresh_process\<lparr>threads := [], locks := []\<rparr>) 0
     (owner_in fresh_process 0) = Some 1 \<and>
   owner_in state_two_owners 0 = Some 1 \<and>
   locksHeld (heapThreads state_two_owners ! 0) = [0]"
proof -
  let ?p = "fold parseLine lines_two_threads fresh_process"
  have r: "reachable ?p" by (rule reachable_lines)
  have c: "currentThread ?p = Some 1"
    and o: "owner_in ?p 0 = Some 0"
    and k: "locksHeld (heapThreads ?p ! 0) = [0]" "locksHeld (heapThreads ?p ! 1) = []"
    by (simp_all add: eval_defs lines_two_threads_def owner_in_def)
  have t: "takes_ownership ''   - locked <0x1> (a A)'' ?p = Some 0"
    by (simp add: eval_defs pred_defs)
  have r0: "reachable fresh_process" by (rule reachable.fresh)
  have q: "parseThreadDump doc_two_owners fresh_process = Inr state_two_owners"
    by (simp add: eval_defs doc2_defs)
  have f: "fold parseLine (split_lines doc_two_owners) (fresh_process\<lparr>threads := [], locks := []\<rparr>) =
      state_two_owners"
    by (simp add: eval_defs doc2_defs)
  have a: "reattributed state_two_owners = []"
    by (simp add: reattributed_def anonymous_waiter_def state_two_owners_def)
  have x: "owner_in state_two_owners 0 = Some 1" "locksHeld (heapThreads state_two_owners ! 0) = [0]"
    by (simp_all add: owner_in_def state_two_owners_def)
  note w1 = owner_after_parsing[OF r, of "''   - locked <0x1> (a A)''" 0]
  note w2 = owner_after_parsing[OF r0, of _ 0 doc_two_owners state_two_owners]
  have y: "last_owner (split_lines doc_two_owners) (fresh_process\<lparr>threads := [], locks := []\<rparr>) 0
     (owner_in fresh_process 0) = Some 1"
    using w2 q x(1) by (simp add: f a)
  show ?thesis using w1 r c o k t r0 q a x y by (auto simp: f)
qed

end
